theory Spec2Isabelle
  imports Complex_Main
begin

section \<open>The sdr2msghub edge service: a shallow embedding of main.go\<close>

text \<open>
  The program samples FM stations, scores the captured audio with a TensorFlow graph and
  publishes high-scoring clips. Its calls into TensorFlow, the SDR service, the message hub,
  the clock and the random generator are inputs of the model: each function below takes the
  results of those calls as arguments and records the calls it makes in a trace.
  A panic is a value: every function that can panic returns a sum whose left side is the panic.
\<close>

subsection \<open>float32\<close>

text \<open>
  Scores, inferred values, random draws and station frequencies are Go \<open>float32\<close> values:
  IEEE 754 binary32. A value is a NaN, an infinity or a finite number; a finite number is kept
  as the rational it denotes. The two zeros are one value here: the program compares, adds and
  multiplies, and these agree on both zeros (it never divides and never reads the sign bit).
  Every arithmetic operation rounds its exact result to the nearest binary32 value, ties to
  the even significand, each operation on its own, as the Go compiler does where it does not
  fuse a product with a sum.
\<close>

datatype f32 = NaN | PInf | NInf | Fin rat

text \<open>
  The binary exponent of a positive magnitude, searched over the exponents binary32 has:
  the largest \<open>e\<close> in \<open>-125 .. 128\<close> with \<open>2^e \<le> a\<close>, and \<open>-126\<close> (the exponent
  of the subnormal numbers and of the smallest normal binade) when there is none.
\<close>

fun find_exp :: "rat \<Rightarrow> nat \<Rightarrow> int" where
  "find_exp a 0 = - 126"
| "find_exp a (Suc k) = (if 2 powi (int k - 125) \<le> a then int k - 125 else find_exp a k)"

definition round_even :: "rat \<Rightarrow> int" where
  "round_even a =
     (let f = \<lfloor>a\<rfloor>; d = a - of_int f
      in if d < 1 / 2 then f else if 1 / 2 < d then f + 1 else if even f then f else f + 1)"

text \<open>
  Rounding to binary32: 24 significant bits, so the spacing in the binade of exponent \<open>e\<close>
  is \<open>2^(e - 23)\<close>; a result of magnitude \<open>2^128\<close> or more has overflowed to an infinity.
\<close>

definition rnd :: "rat \<Rightarrow> f32" where
  "rnd x =
     (let q = 2 powi (find_exp \<bar>x\<bar> 254 - 23); y = of_int (round_even (x / q)) * q
      in if 2 powi 128 \<le> y then PInf else if y \<le> - (2 powi 128) then NInf else Fin y)"

fun fadd :: "f32 \<Rightarrow> f32 \<Rightarrow> f32" where
  "fadd NaN _ = NaN"
| "fadd _ NaN = NaN"
| "fadd PInf NInf = NaN"
| "fadd NInf PInf = NaN"
| "fadd PInf _ = PInf"
| "fadd _ PInf = PInf"
| "fadd NInf _ = NInf"
| "fadd _ NInf = NInf"
| "fadd (Fin a) (Fin b) = rnd (a + b)"

fun fmul :: "f32 \<Rightarrow> f32 \<Rightarrow> f32" where
  "fmul NaN _ = NaN"
| "fmul _ NaN = NaN"
| "fmul PInf PInf = PInf"
| "fmul PInf NInf = NInf"
| "fmul NInf PInf = NInf"
| "fmul NInf NInf = PInf"
| "fmul PInf (Fin b) = (if b = 0 then NaN else if 0 < b then PInf else NInf)"
| "fmul NInf (Fin b) = (if b = 0 then NaN else if 0 < b then NInf else PInf)"
| "fmul (Fin a) PInf = (if a = 0 then NaN else if 0 < a then PInf else NInf)"
| "fmul (Fin a) NInf = (if a = 0 then NaN else if 0 < a then NInf else PInf)"
| "fmul (Fin a) (Fin b) = rnd (a * b)"

text \<open>
  Go allows a compiler to fuse \<open>x*y + z\<close> into one operation that rounds once (it does on
  arm64). \<open>xmul\<close> is the product before rounding and \<open>ffma\<close> the fused operation; the
  model of the loop below does not fuse, and the lower bound on the score is proved for both.
\<close>

fun xmul :: "f32 \<Rightarrow> f32 \<Rightarrow> f32" where
  "xmul (Fin a) (Fin b) = Fin (a * b)"
| "xmul a b = fmul a b"

definition ffma :: "f32 \<Rightarrow> f32 \<Rightarrow> f32 \<Rightarrow> f32" where
  "ffma a b c = fadd (xmul a b) c"

text \<open>Go's \<open><\<close>, \<open>>\<close> and \<open>==\<close> on float32: every comparison with a NaN is false.\<close>

fun flt :: "f32 \<Rightarrow> f32 \<Rightarrow> bool" where
  "flt NaN _ = False"
| "flt _ NaN = False"
| "flt PInf _ = False"
| "flt _ PInf = True"
| "flt _ NInf = False"
| "flt NInf _ = True"
| "flt (Fin a) (Fin b) = (a < b)"

definition fgt :: "f32 \<Rightarrow> f32 \<Rightarrow> bool" where
  "fgt a b = flt b a"

definition feq :: "f32 \<Rightarrow> f32 \<Rightarrow> bool" where
  "feq a b = (a \<noteq> NaN \<and> a = b)"

definition fle :: "f32 \<Rightarrow> f32 \<Rightarrow> bool" where
  "fle a b = (flt a b \<or> feq a b)"

text \<open>
  The constants of the source. An untyped constant used with a float32 operand is converted
  to float32, that is rounded: \<open>0.3\<close> and \<open>0.05\<close> are not binary fractions.
\<close>

definition c03 :: f32 where
  "c03 = rnd (3 / 10)"

definition c005 :: f32 where
  "c005 = rnd (5 / 100)"

definition c05 :: f32 where
  "c05 = rnd (5 / 10)"

subsection \<open>The model loader\<close>

datatype panic = Panic string | RuntimeError string

fun opIsSafe_loop :: "string list \<Rightarrow> string \<Rightarrow> bool" where
  "opIsSafe_loop [] a = False"
| "opIsSafe_loop (b # bs) a = (if b = a then True else opIsSafe_loop bs a)"

definition safeOPtypes :: "string list" where
  "safeOPtypes =
     [''Const'', ''Placeholder'', ''Conv2D'', ''Cast'', ''Div'', ''StatelessRandomNormal'',
      ''ExpandDims'', ''AudioSpectrogram'', ''DecodeRaw'', ''Reshape'', ''MatMul'', ''Sum'',
      ''Softmax'', ''Squeeze'', ''RandomUniform'', ''Identity'']"

definition opIsSafe :: "string \<Rightarrow> bool" where
  "opIsSafe a = opIsSafe_loop safeOPtypes a"

text \<open>
  A graph is the list of its operations, \<open>graph.Operations()\<close>, each with a name and a type;
  \<open>graph.Operation(name)\<close> is the operation of that name, or nil.
\<close>

record operation =
  op_name :: string
  op_type :: string

type_synonym graph = "operation list"

fun graph_operation :: "graph \<Rightarrow> string \<Rightarrow> operation option" where
  "graph_operation [] n = None"
| "graph_operation (p # ps) n = (if op_name p = n then Some p else graph_operation ps n)"

text \<open>\<open>tf.Output\<close> is an operation and an output index; \<open>Sess\<close> is a session handle or nil.\<close>

record model =
  Sess :: "nat option"
  InputPH :: "operation option \<times> nat"
  Output :: "operation option \<times> nat"

definition zero_model :: model where
  "zero_model = \<lparr>Sess = None, InputPH = (None, 0), Output = (None, 0)\<rparr>"

text \<open>
  \<open>unsafeOPs\<close> is a \<open>map[string]bool\<close> whose values are all true: the list of its keys,
  without repetition. Storing under a key that is there changes nothing.
\<close>

definition set_true :: "string list \<Rightarrow> string \<Rightarrow> string list" where
  "set_true ks k = (if k \<in> set ks then ks else ks @ [k])"

fun scan_ops :: "graph \<Rightarrow> string list \<times> bool \<Rightarrow> string list \<times> bool" where
  "scan_ops [] acc = acc"
| "scan_ops (p # ps) (unsafeOPs, graphIsUnsafe) =
     (if \<not> opIsSafe (op_type p) then scan_ops ps (set_true unsafeOPs (op_type p), True)
      else scan_ops ps (unsafeOPs, graphIsUnsafe))"

text \<open>
  Go leaves the order of a \<open>range\<close> over a map to the runtime. The order is an input: the list
  of the positions of the entries, in the order the runtime visits them. The runtime visits
  every entry once, so the list it gives is a permutation of the positions.
\<close>

definition range_order :: "nat list \<Rightarrow> 'a list \<Rightarrow> 'a list" where
  "range_order ps xs = map (\<lambda>i. xs ! i) (filter (\<lambda>i. i < length xs) ps)"

definition visits_each_once :: "nat list \<Rightarrow> 'a list \<Rightarrow> bool" where
  "visits_each_once ps xs = (distinct ps \<and> set ps = {..<length xs})"

text \<open>
  \<open>newModel\<close>, with the results of \<open>ioutil.ReadFile\<close>, \<open>graph.Import\<close> and
  \<open>tf.NewSession\<close> as inputs (an error message on the left). It returns the lines it prints
  and the pair \<open>(m, err)\<close> of the source, or panics.
\<close>

record loader_env =
  read_file :: "string \<Rightarrow> string + string"
  import_graph :: "string \<Rightarrow> string + graph"
  new_session :: "graph \<Rightarrow> nat option \<times> string option"
  unsafe_order :: "nat list"

definition newModel :: "loader_env \<Rightarrow> string \<Rightarrow> panic + (string list \<times> model \<times> string option)" where
  "newModel env path =
     (case read_file env path of
        Inl e \<Rightarrow> Inl (Panic e)
      | Inr def \<Rightarrow>
         (case import_graph env def of
            Inl e \<Rightarrow> Inl (Panic e)
          | Inr g \<Rightarrow>
             (let (unsafeOPs, graphIsUnsafe) = scan_ops g ([], False)
              in if graphIsUnsafe
                 then Inr (''The following OP types are not in whitelist:''
                             # range_order (unsafe_order env) unsafeOPs,
                           zero_model, Some ''unsafe OPs'')
                 else (case graph_operation g ''output'' of
                         None \<Rightarrow> Inr ([], zero_model, Some ''output OP not found'')
                       | Some outputOP \<Rightarrow>
                          (let m1 = zero_model\<lparr>Output := (Some outputOP, 0)\<rparr>
                           in case graph_operation g ''input/Placeholder'' of
                                None \<Rightarrow> Inr ([], m1, Some ''input OP not found'')
                              | Some inputPHOP \<Rightarrow>
                                 (let m2 = m1\<lparr>InputPH := (Some inputPHOP, 0)\<rparr>;
                                      (sess, err) = new_session env g
                                  in Inr ([], m2\<lparr>Sess := sess\<rparr>, err)))))))"

subsection \<open>Connecting to the message hub\<close>

text \<open>
  \<open>getEnv\<close> reads the environment, an input \<open>os.Getenv :: string \<Rightarrow> string\<close> in which
  an unset variable reads as the empty string. The loop returns the first value that is
  not empty; \<open>getEnv_loop\<close> gives whether it returned and the last value read.
\<close>

fun getEnv_loop :: "(string \<Rightarrow> string) \<Rightarrow> string list \<Rightarrow> string \<Rightarrow> bool \<times> string" where
  "getEnv_loop getenv [] v = (False, v)"
| "getEnv_loop getenv (key # keys) v =
     (let v' = getenv key in if v' \<noteq> [] then (True, v') else getEnv_loop getenv keys v')"

definition getEnv :: "(string \<Rightarrow> string) \<Rightarrow> string list \<Rightarrow> panic + string" where
  "getEnv getenv keys =
     (if length keys = 0 then Inl (Panic ''must give at least one key'')
      else (let (returned, v) = getEnv_loop getenv keys []
            in if returned then Inr v
               else if v = [] then Inl (Panic ''can't any find set value'')
               else Inr v))"

text \<open>
  A Go string is a sequence of bytes, and so is a \<open>string\<close> here. The slice expressions
  \<open>s[:n]\<close> and \<open>s[n:]\<close> panic at run time when \<open>n\<close> exceeds the length.
\<close>

definition slice_to :: "string \<Rightarrow> nat \<Rightarrow> panic + string" where
  "slice_to s n =
     (if n \<le> length s then Inr (take n s) else Inl (RuntimeError ''slice bounds out of range''))"

definition slice_from :: "string \<Rightarrow> nat \<Rightarrow> panic + string" where
  "slice_from s n =
     (if n \<le> length s then Inr (drop n s) else Inl (RuntimeError ''slice bounds out of range''))"

text \<open>\<open>strings.Split(s, ",")\<close>: the pieces between the commas, one more than there are commas.\<close>

fun split_comma :: "string \<Rightarrow> string list" where
  "split_comma [] = [[]]"
| "split_comma (c # cs) =
     (if c = CHR '','' then [] # split_comma cs
      else (case split_comma cs of [] \<Rightarrow> [[c]] | p # ps \<Rightarrow> (c # p) # ps))"

datatype acks = NoResponse | WaitForLocal | WaitForAll

text \<open>The fields of \<open>sarama.Config\<close> that the program sets.\<close>

record config =
  ClientID :: string
  RequiredAcks :: acks
  RetryMax :: int
  ReturnSuccesses :: bool
  TLSEnable :: bool
  SASLUser :: string
  SASLPassword :: string
  SASLEnable :: bool

definition populateConfig :: "config \<Rightarrow> string \<Rightarrow> string \<Rightarrow> string \<Rightarrow> config \<times> string option" where
  "populateConfig cfg user pw apiKey =
     (cfg\<lparr>ClientID := apiKey, RequiredAcks := WaitForAll, RetryMax := 5,
          ReturnSuccesses := True, TLSEnable := True, SASLUser := user,
          SASLPassword := pw, SASLEnable := True\<rparr>, None)"

record msghubConn =
  Producer :: "nat option"
  Topic :: string

text \<open>
  The inputs of \<open>connect\<close>: the environment, the configuration \<open>sarama.NewConfig()\<close> gives,
  and \<open>sarama.NewSyncProducer\<close>, which returns a producer handle and an error.
\<close>

record conn_env =
  os_getenv :: "string \<Rightarrow> string"
  new_config :: config
  new_sync_producer :: "string list \<Rightarrow> config \<Rightarrow> nat option \<times> string option"

definition connect :: "conn_env \<Rightarrow> string \<Rightarrow> panic + (msghubConn \<times> string option)" where
  "connect env topic =
     (let conn = \<lparr>Producer = None, Topic = topic\<rparr>
      in case getEnv (os_getenv env) [''MSGHUB_API_KEY''] of
           Inl p \<Rightarrow> Inl p
         | Inr apiKey \<Rightarrow>
            (case slice_to apiKey 16 of
               Inl p \<Rightarrow> Inl p
             | Inr username \<Rightarrow>
                (case slice_from apiKey 16 of
                   Inl p \<Rightarrow> Inl p
                 | Inr password \<Rightarrow>
                    (case getEnv (os_getenv env) [''MSGHUB_BROKER_URL''] of
                       Inl p \<Rightarrow> Inl p
                     | Inr brokerStr \<Rightarrow>
                        (let brokers = split_comma brokerStr;
                             (cfg, err) = populateConfig (new_config env) username password apiKey
                         in case err of
                              Some e \<Rightarrow> Inr (conn, Some e)
                            | None \<Rightarrow>
                               (let (producer, err') = new_sync_producer env brokers cfg
                                in Inr (conn\<lparr>Producer := producer\<rparr>, err')))))))"

subsection \<open>The station map\<close>

text \<open>
  \<open>stationGoodness\<close> is a \<open>map[float32]float32\<close>. Go finds a key with \<open>==\<close>, so a NaN key is
  never found: reading it gives the zero value and storing under it adds an entry each time.
  The map is the list of its entries; an entry keeps its position when its value is stored
  again, and a new entry goes to the end.
\<close>

type_synonym gomap = "(f32 \<times> f32) list"

fun lookup :: "gomap \<Rightarrow> f32 \<Rightarrow> f32 option" where
  "lookup [] k = None"
| "lookup ((k', v) # m) k = (if feq k' k then Some v else lookup m k)"

definition index :: "gomap \<Rightarrow> f32 \<Rightarrow> f32" where
  "index m k = (case lookup m k of None \<Rightarrow> Fin 0 | Some v \<Rightarrow> v)"

fun assign :: "gomap \<Rightarrow> f32 \<Rightarrow> f32 \<Rightarrow> gomap" where
  "assign [] k v = [(k, v)]"
| "assign ((k', v') # m) k v = (if feq k' k then (k', v) # m else (k', v') # assign m k v)"

subsection \<open>The sampling loop\<close>

record AudioMsg =
  Audio :: string
  Ts :: int
  Freq :: f32
  ExpectedValue :: f32
  DevID :: string

text \<open>
  What the loop does to the outside, in order: the calls it makes and the lines it prints
  (a printed line is kept as the values it shows). \<open>rtlsdr.GetAudio\<close> is called with
  \<open>int(station)\<close>; the call is recorded with the station it is made for.
\<close>

datatype event =
    CallGetCeilingSignals string int
  | PrintFoundNew f32
  | PrintFound nat
  | PrintMap gomap
  | CallGetAudio string f32
  | CallGoodness string
  | PrintObserved f32 f32 f32
  | CallSendMessage string AudioMsg
  | LogFailed string
  | LogSent int int
  | PrintErr string

record world =
  stationGoodness :: gomap
  lastStationsRefresh :: int
  trace :: "event list"

text \<open>What \<open>main\<close> has fixed before the loop starts.\<close>

record settings =
  hostname :: string
  devID :: string
  conn :: msghubConn

text \<open>
  Time is an instant in nanoseconds since the Unix epoch. \<open>Time.Sub\<close> gives a Duration, an
  int64 of nanoseconds, and saturates. The zero \<open>time.Time\<close> is 1 January of year 1.
\<close>

definition maxDuration :: int where
  "maxDuration = 2 ^ 63 - 1"

definition minDuration :: int where
  "minDuration = - (2 ^ 63)"

definition time_sub :: "int \<Rightarrow> int \<Rightarrow> int" where
  "time_sub t u =
     (let d = t - u in if maxDuration < d then maxDuration else if d < minDuration then minDuration else d)"

definition five_minutes :: int where
  "five_minutes = 5 * (60 * 1000000000)"

definition zero_time :: int where
  "zero_time = - 62135596800 * 1000000000"

definition initial_world :: world where
  "initial_world = \<lparr>stationGoodness = [], lastStationsRefresh = zero_time, trace = []\<rparr>"

text \<open>Lines 224 to 229: a station that is not in the map enters it with the value 0.5.\<close>

definition ensureTracked :: "world \<Rightarrow> f32 \<Rightarrow> world" where
  "ensureTracked w station =
     (case lookup (stationGoodness w) station of
        Some g \<Rightarrow> w
      | None \<Rightarrow> w\<lparr>stationGoodness := assign (stationGoodness w) station c05,
                  trace := trace w @ [PrintFoundNew station]\<rparr>)"

text \<open>
  One turn of the outer loop takes the readings of the clock, the result of
  \<open>rtlsdr.GetCeilingSignals\<close> and, for the sampling pass, the order in which the runtime
  visits the map's entries with the inputs of each visit.
\<close>

record visit =
  draw :: f32
  captured :: "string + string"
  inferred :: "string + f32"
  stamp :: int
  sent :: "string + int \<times> int"

record tick =
  now_check :: int
  discovered :: "string + f32 list"
  now_record :: int
  plan :: "(nat \<times> visit) list"

text \<open>Lines 217 to 238. A panic carries the trace up to it.\<close>

definition refresh :: "settings \<Rightarrow> tick \<Rightarrow> world \<Rightarrow> panic \<times> event list + world" where
  "refresh su t w =
     (if five_minutes < time_sub (now_check t) (lastStationsRefresh w)
      then (let w0 = w\<lparr>trace := trace w @ [CallGetCeilingSignals (hostname su) (- 8)]\<rparr>
            in case discovered t of
                 Inl e \<Rightarrow> Inl (Panic e, trace w0)
               | Inr stations \<Rightarrow>
                  (let w1 = foldl ensureTracked w0 stations
                   in if length (stationGoodness w1) < 1
                      then Inl (Panic ''No FM stations. Move the antenna?'', trace w1)
                      else Inr (w1\<lparr>trace := trace w1 @ [PrintFound (length stations),
                                                           PrintMap (stationGoodness w1)],
                                    lastStationsRefresh := now_record t\<rparr>)))
      else Inr w)"

text \<open>Line 251.\<close>

definition estimator_update :: "gomap \<Rightarrow> f32 \<Rightarrow> f32 \<Rightarrow> gomap" where
  "estimator_update m station v =
     assign m station (fadd (fmul (index m station) (fadd v c03)) c005)"

text \<open>\<open>publishAudio\<close>: the events of the send and the error it returns.\<close>

definition publishAudio :: "msghubConn \<Rightarrow> AudioMsg \<Rightarrow> string + int \<times> int \<Rightarrow> event list \<times> string option" where
  "publishAudio c audioMsg result =
     (case result of
        Inl e \<Rightarrow> ([CallSendMessage (Topic c) audioMsg, LogFailed e], Some e)
      | Inr (part, off) \<Rightarrow> ([CallSendMessage (Topic c) audioMsg, LogSent part off], None))"

text \<open>Lines 240 to 269: the body of the inner loop, for one entry of the map.\<close>

definition visit_station :: "settings \<Rightarrow> f32 \<times> f32 \<Rightarrow> visit \<Rightarrow> world \<Rightarrow> panic \<times> event list + world" where
  "visit_station su entry io w =
     (let (station, goodness) = entry
      in if flt (draw io) goodness
         then (let t1 = trace w @ [CallGetAudio (hostname su) station]
               in case captured io of
                    Inl e \<Rightarrow> Inl (Panic e, t1)
                  | Inr audio \<Rightarrow>
                     (let t2 = t1 @ [CallGoodness audio]
                      in case inferred io of
                           Inl e \<Rightarrow> Inl (Panic e, t2)
                         | Inr v \<Rightarrow>
                            (let m = estimator_update (stationGoodness w) station v;
                                 t3 = t2 @ [PrintObserved station v (index m station)]
                             in if fgt v c05
                                then (let msg = \<lparr>Audio = audio, Ts = stamp io, Freq = station,
                                                 ExpectedValue = v, DevID = devID su\<rparr>;
                                          (evs, err) = publishAudio (conn su) msg (sent io);
                                          t4 = t3 @ evs
                                      in case err of
                                           Some e \<Rightarrow> Inr (w\<lparr>stationGoodness := m, trace := t4 @ [PrintErr e]\<rparr>)
                                         | None \<Rightarrow> Inr (w\<lparr>stationGoodness := m, trace := t4\<rparr>))
                                else Inr (w\<lparr>stationGoodness := m, trace := t3\<rparr>))))
         else Inr w)"

text \<open>
  Line 239: the runtime visits the entries at the positions of the plan, one after the other;
  each visit reads the entry as it is then.
\<close>

fun sampling_pass :: "settings \<Rightarrow> (nat \<times> visit) list \<Rightarrow> world \<Rightarrow> panic \<times> event list + world" where
  "sampling_pass su [] w = Inr w"
| "sampling_pass su ((i, io) # rest) w =
     (if i < length (stationGoodness w)
      then (case visit_station su (stationGoodness w ! i) io w of
              Inl p \<Rightarrow> Inl p
            | Inr w' \<Rightarrow> sampling_pass su rest w')
      else sampling_pass su rest w)"

definition loop_iteration :: "settings \<Rightarrow> tick \<Rightarrow> world \<Rightarrow> panic \<times> event list + world" where
  "loop_iteration su t w =
     (case refresh su t w of Inl p \<Rightarrow> Inl p | Inr w' \<Rightarrow> sampling_pass su (plan t) w')"

text \<open>
  The loop of \<open>main\<close> has no exit. Its state after the turns of a finite list of ticks, or
  the panic that stopped it:
\<close>

fun main_loop :: "settings \<Rightarrow> tick list \<Rightarrow> world \<Rightarrow> panic \<times> event list + world" where
  "main_loop su [] w = Inr w"
| "main_loop su (t # ts) w =
     (case loop_iteration su t w of Inl p \<Rightarrow> Inl p | Inr w' \<Rightarrow> main_loop su ts w')"

text \<open>The inferred value of a visit is not negative (an infinity is allowed, a NaN is not).\<close>

definition nonneg_inferred :: "visit \<Rightarrow> bool" where
  "nonneg_inferred io = (case inferred io of Inl e \<Rightarrow> True | Inr v \<Rightarrow> fle (Fin 0) v)"

subsection \<open>Concrete inputs\<close>

text \<open>A graph with two file operations, one of them twice, and a loader that imports it.\<close>

definition demo_graph :: graph where
  "demo_graph =
     [\<lparr>op_name = ''input/Placeholder'', op_type = ''Placeholder''\<rparr>,
      \<lparr>op_name = ''r1'', op_type = ''ReadFile''\<rparr>,
      \<lparr>op_name = ''w'', op_type = ''WriteFile''\<rparr>,
      \<lparr>op_name = ''r2'', op_type = ''ReadFile''\<rparr>,
      \<lparr>op_name = ''output'', op_type = ''Softmax''\<rparr>]"

definition demo_loader :: loader_env where
  "demo_loader =
     \<lparr>read_file = (\<lambda>p. Inr ''bytes''), import_graph = (\<lambda>d. Inr demo_graph),
      new_session = (\<lambda>g. (Some 1, None)), unsafe_order = [1, 0]\<rparr>"

text \<open>An environment for \<open>connect\<close> with two brokers and the API key given.\<close>

definition hub_env :: "string \<Rightarrow> conn_env" where
  "hub_env key =
     \<lparr>os_getenv = (\<lambda>k. if k = ''MSGHUB_API_KEY'' then key
                        else if k = ''MSGHUB_BROKER_URL'' then ''b1:9093,b2:9093'' else []),
      new_config = \<lparr>ClientID = ''sarama'', RequiredAcks = WaitForLocal, RetryMax = 3,
                    ReturnSuccesses = False, TLSEnable = False, SASLUser = [],
                    SASLPassword = [], SASLEnable = False\<rparr>,
      new_sync_producer = (\<lambda>brokers cfg. (Some (length brokers), None))\<rparr>"

text \<open>
  One station at 101.1 MHz, with the score it is given when found and with a score above 1;
  a visit whose draw is 0.25 and whose inferred value is float32(0.9), and variants of it.
\<close>

definition demo_settings :: settings where
  "demo_settings =
     \<lparr>hostname = ''sdr'', devID = ''myorg/pi4'', conn = \<lparr>Producer = Some 1, Topic = ''sdr-audio''\<rparr>\<rparr>"

definition one_station :: world where
  "one_station =
     \<lparr>stationGoodness = [(Fin 101100000, Fin (1 / 2))],
      lastStationsRefresh = 1700000001000000000, trace = []\<rparr>"

definition hot_station :: world where
  "hot_station =
     \<lparr>stationGoodness = [(Fin 101100000, Fin 2)],
      lastStationsRefresh = 1700000001000000000, trace = []\<rparr>"

definition speech_visit :: visit where
  "speech_visit =
     \<lparr>draw = Fin (1 / 4), captured = Inr ''pcm'', inferred = Inr (Fin (7549747 / 8388608)),
      stamp = 1700000040, sent = Inr (0, 42)\<rparr>"

definition threshold_visit :: visit where
  "threshold_visit = speech_visit\<lparr>inferred := Inr (Fin (1 / 2))\<rparr>"

definition sure_visit :: visit where
  "sure_visit = speech_visit\<lparr>inferred := Inr (Fin 1)\<rparr>"

definition failed_send_visit :: visit where
  "failed_send_visit = speech_visit\<lparr>sent := Inl ''kafka: broker down''\<rparr>"

text \<open>
  Turns of the outer loop: the first one, which finds the station and samples it; one more than
  five minutes later that finds nothing; the same with a failing discovery; and one 99 seconds
  after the first.
\<close>

definition first_tick :: tick where
  "first_tick =
     \<lparr>now_check = 1700000000000000000, discovered = Inr [Fin 101100000],
      now_record = 1700000001000000000, plan = [(0, speech_visit)]\<rparr>"

definition quiet_tick :: tick where
  "quiet_tick =
     \<lparr>now_check = 1700000400000000000, discovered = Inr [],
      now_record = 1700000401000000000, plan = []\<rparr>"

definition failing_tick :: tick where
  "failing_tick = quiet_tick\<lparr>discovered := Inl ''connection refused''\<rparr>"

definition soon_tick :: tick where
  "soon_tick =
     \<lparr>now_check = 1700000100000000000, discovered = Inr [Fin 88500000],
      now_record = 1700000101000000000, plan = []\<rparr>"

text \<open>The state after the discovery of the first turn, and after the whole first turn.\<close>

definition after_first_refresh :: world where
  "after_first_refresh =
     \<lparr>stationGoodness = [(Fin 101100000, Fin (1 / 2))],
      lastStationsRefresh = 1700000001000000000,
      trace = [CallGetCeilingSignals ''sdr'' (- 8), PrintFoundNew (Fin 101100000), PrintFound 1,
               PrintMap [(Fin 101100000, Fin (1 / 2))]]\<rparr>"

definition after_first_tick :: world where
  "after_first_tick =
     \<lparr>stationGoodness = [(Fin 101100000, Fin (10905191 / 16777216))],
      lastStationsRefresh = 1700000001000000000,
      trace =
        [CallGetCeilingSignals ''sdr'' (- 8), PrintFoundNew (Fin 101100000), PrintFound 1,
         PrintMap [(Fin 101100000, Fin (1 / 2))],
         CallGetAudio ''sdr'' (Fin 101100000), CallGoodness ''pcm'',
         PrintObserved (Fin 101100000) (Fin (7549747 / 8388608)) (Fin (10905191 / 16777216)),
         CallSendMessage ''sdr-audio''
           \<lparr>Audio = ''pcm'', Ts = 1700000040, Freq = Fin 101100000,
            ExpectedValue = Fin (7549747 / 8388608), DevID = ''myorg/pi4''\<rparr>,
         LogSent 0 42]\<rparr>"

section \<open>Properties\<close>

subsection \<open>Rounding to binary32\<close>

lemma find_exp_range: "- 126 \<le> find_exp a k"
  by (induction k) auto

lemma find_exp_lower: "find_exp a k = - 126 \<or> 2 powi (find_exp a k) \<le> a"
  by (induction k) auto

lemma round_even_lower: "of_int k \<le> a \<Longrightarrow> k \<le> round_even a"
proof -
  assume "of_int k \<le> a"
  then have "k \<le> \<lfloor>a\<rfloor>" by (simp add: le_floor_iff)
  then show ?thesis by (auto simp: round_even_def Let_def)
qed

text \<open>
  A number \<open>k * 2^j\<close> with \<open>0 \<le> k < 2^24\<close> and \<open>j \<ge> -149\<close> is a binary32 number.
  Rounding never goes below such a number that the exact result has reached.
\<close>

lemma rnd_lower:
  fixes x :: rat
  assumes k: "0 \<le> k" "k < 2 ^ 24" and j: "- 149 \<le> j" and le: "of_int k * 2 powi j \<le> x"
  shows "rnd x = PInf \<or> (\<exists>y. rnd x = Fin y \<and> of_int k * 2 powi j \<le> y)"
proof -
  define e where "e = find_exp \<bar>x\<bar> 254"
  define q :: rat where "q = 2 powi (e - 23)"
  define y :: rat where "y = of_int (round_even (x / q)) * q"
  have q: "0 < q" by (simp add: q_def)
  have x0: "0 \<le> x"
    using le k by (smt (verit) mult_nonneg_nonneg of_int_0_le_iff zero_le_power_int zero_le_numeral order_trans)
  have "of_int k * 2 powi j \<le> y"
  proof (cases "e - 23 \<le> j")
    case True
    then obtain d where d: "j = (e - 23) + int d"
      by (metis zle_iff_zadd)
    have "(2::rat) powi j = 2 powi (e - 23) * 2 ^ d"
      unfolding d by (simp add: power_int_add)
    then have r: "of_int k * 2 powi j = of_int (k * 2 ^ d) * q"
      by (simp add: q_def)
    have "of_int (k * 2 ^ d) \<le> x / q"
      using le r q by (simp add: pos_le_divide_eq)
    then have "k * 2 ^ d \<le> round_even (x / q)"
      by (rule round_even_lower)
    then have "(of_int (k * 2 ^ d) :: rat) \<le> of_int (round_even (x / q))"
      by (simp only: of_int_le_iff)
    then show ?thesis
      unfolding r y_def using q by (simp only: mult_le_cancel_right_pos)
  next
    case False
    then have je: "j + 24 \<le> e" by simp
    with j have "e \<noteq> - 126" by simp
    with find_exp_lower [of "\<bar>x\<bar>" 254] have ex: "2 powi e \<le> x"
      using x0 by (simp add: e_def)
    have eq: "(2::rat) powi e = of_int (2 ^ 23) * q"
      by (simp add: q_def power_int_diff)
    have "of_int (2 ^ 23) \<le> x / q"
      using ex q unfolding eq by (simp only: pos_le_divide_eq)
    then have "2 ^ 23 \<le> round_even (x / q)"
      by (rule round_even_lower)
    then have "(of_int (2 ^ 23) :: rat) \<le> of_int (round_even (x / q))"
      by (simp only: of_int_le_iff)
    then have "of_int (2 ^ 23) * q \<le> y"
      unfolding y_def using q by (simp only: mult_le_cancel_right_pos)
    then have ey: "2 powi e \<le> y"
      by (simp only: eq)
    have "k \<le> 2 ^ 24" using k by simp
    then have "(of_int k :: rat) \<le> of_int (2 ^ 24)"
      by (simp only: of_int_le_iff)
    then have "(of_int k :: rat) \<le> 2 ^ 24"
      by simp
    then have "of_int k * (2::rat) powi j \<le> 2 ^ 24 * 2 powi j"
      by (intro mult_right_mono) auto
    also have "\<dots> = 2 powi (j + 24)"
      by (simp add: power_int_add)
    also have "\<dots> \<le> 2 powi e"
      using je by (intro power_int_increasing) auto
    finally show ?thesis using ey by simp
  qed
  moreover have "0 \<le> of_int k * (2::rat) powi j"
    using k by simp
  ultimately have y0: "0 \<le> y" and ky: "of_int k * 2 powi j \<le> y" by auto
  have "rnd x = (if 2 powi 128 \<le> y then PInf else if y \<le> - (2 powi 128) then NInf else Fin y)"
    by (simp add: rnd_def Let_def y_def q_def e_def)
  moreover have "(0::rat) < 2 powi 128"
    by (rule zero_less_power_int) simp
  then have "\<not> y \<le> - (2 powi 128)"
    using y0 by linarith
  ultimately show ?thesis using ky by auto
qed

text \<open>Evaluating a rounding whose binade is known.\<close>

lemma find_exp_small: "a < 2 powi (- 125) \<Longrightarrow> find_exp a k = - 126"
proof (induction k)
  case 0
  then show ?case by simp
next
  case (Suc k)
  have "(2::rat) powi (- 125) \<le> 2 powi (int k - 125)"
    by (intro power_int_increasing) auto
  with Suc show ?case by auto
qed

lemma find_exp_eq:
  "2 powi e \<le> a \<Longrightarrow> a < 2 powi (e + 1) \<Longrightarrow> - 125 \<le> e \<Longrightarrow> e < int k - 125 \<Longrightarrow> find_exp a k = e"
proof (induction k)
  case 0
  then show ?case by simp
next
  case (Suc k)
  show ?case
  proof (cases "e = int k - 125")
    case True
    with Suc.prems show ?thesis by simp
  next
    case False
    with Suc.prems have lt: "e < int k - 125" by simp
    then have "(2::rat) powi (e + 1) \<le> 2 powi (int k - 125)"
      by (intro power_int_increasing) auto
    with Suc.prems have "\<not> 2 powi (int k - 125) \<le> a" by simp
    with Suc.IH [OF Suc.prems(1-3) lt] show ?thesis by simp
  qed
qed

lemma rnd_eval:
  assumes "2 powi e \<le> \<bar>x\<bar>" and "\<bar>x\<bar> < 2 powi (e + 1)" and "- 125 \<le> e" and "e \<le> 127"
    and "round_even (x / 2 powi (e - 23)) = n" and "\<bar>n\<bar> < 2 ^ 24"
    and y: "y = of_int n * 2 powi (e - 23)"
  shows "rnd x = Fin y"
proof -
  have e: "find_exp \<bar>x\<bar> 254 = e"
    using assms(1-4) by (intro find_exp_eq) auto
  have "\<bar>of_int n * (2::rat) powi (e - 23)\<bar> = of_int \<bar>n\<bar> * 2 powi (e - 23)"
    by (simp add: abs_mult)
  also have "\<dots> < 2 ^ 24 * 2 powi (e - 23)"
  proof -
    have "(of_int \<bar>n\<bar> :: rat) < of_int (2 ^ 24)"
      using assms(6) by (simp only: of_int_less_iff)
    then show ?thesis by simp
  qed
  also have "\<dots> = 2 powi (e + 1)"
    by (simp add: power_int_add power_int_diff)
  also have "\<dots> \<le> 2 powi 128"
    using assms(4) by (intro power_int_increasing) auto
  finally have "\<bar>of_int n * (2::rat) powi (e - 23)\<bar> < 2 powi 128" .
  then have "\<not> 2 powi 128 \<le> of_int n * (2::rat) powi (e - 23)"
    "\<not> of_int n * (2::rat) powi (e - 23) \<le> - (2 powi 128)"
    by linarith+
  then show ?thesis
    using assms(5) unfolding y by (simp add: rnd_def Let_def e)
qed

lemma c005_eq: "c005 = Fin (13421773 / 268435456)"
  unfolding c005_def by (rule rnd_eval [where e = "- 5" and n = 13421773]; code_simp)

lemma c03_eq: "c03 = Fin (5033165 / 16777216)"
  unfolding c03_def by (rule rnd_eval [where e = "- 2" and n = 10066330]; code_simp)

lemma c05_eq: "c05 = Fin (1 / 2)"
  unfolding c05_def by (rule rnd_eval [where e = "- 1" and n = 8388608]; code_simp)

lemma c005_repr: "\<exists>k j. c005 = Fin (of_int k * 2 powi j) \<and> 0 < k \<and> k < 2 ^ 24 \<and> - 149 \<le> j"
proof (intro exI conjI)
  show "c005 = Fin (of_int 13421773 * 2 powi (- 28))"
    unfolding c005_eq by (simp add: power_int_minus)
qed simp_all

lemma c03_repr: "\<exists>k j. c03 = Fin (of_int k * 2 powi j) \<and> 0 < k \<and> k < 2 ^ 24 \<and> - 149 \<le> j"
proof (intro exI conjI)
  show "c03 = Fin (of_int 5033165 * 2 powi (- 24))"
    unfolding c03_eq by (simp add: power_int_minus)
qed simp_all

lemma fle_Fin_iff: "fle (Fin r) s \<longleftrightarrow> s = PInf \<or> (\<exists>a. s = Fin a \<and> r \<le> a)"
  by (cases s) (auto simp: fle_def feq_def)

lemma flt_fle_trans: "flt r g \<Longrightarrow> fle g g' \<Longrightarrow> flt r g'"
  by (cases r; cases g; cases g') (auto simp: fle_def feq_def)

lemma fadd_repr_lower:
  assumes "0 \<le> k" "k < 2 ^ 24" "- 149 \<le> j" "0 \<le> z"
  shows "fle (Fin (of_int k * 2 powi j)) (fadd (Fin z) (Fin (of_int k * 2 powi j)))"
proof -
  have "of_int k * 2 powi j \<le> z + of_int k * 2 powi j"
    using assms(4) by simp
  from rnd_lower [OF assms(1-3) this] show ?thesis
    unfolding fadd.simps fle_Fin_iff .
qed

lemma fmul_nonneg:
  assumes "0 \<le> a" "0 \<le> y"
  shows "fmul (Fin a) (Fin y) = PInf \<or> (\<exists>z. fmul (Fin a) (Fin y) = Fin z \<and> 0 \<le> z)"
proof -
  have "of_int 0 * 2 powi 0 \<le> a * y"
    using assms by simp
  from rnd_lower [OF _ _ _ this] show ?thesis
    by simp
qed

text \<open>
  The update of line 251 keeps a score at or above float32(0.05) when the inferred value is
  not negative, with the product rounded and with the product fused into the sum.
\<close>

lemma score_lower_bound:
  assumes s: "fle c005 s" and v: "fle (Fin 0) v"
  shows "fle c005 (fadd (fmul s (fadd v c03)) c005)"
proof -
  obtain k j where r: "c005 = Fin (of_int k * 2 powi j)" and k: "0 < k" "k < 2 ^ 24" and j: "- 149 \<le> j"
    using c005_repr by blast
  obtain k' j' where r': "c03 = Fin (of_int k' * 2 powi j')" and k': "0 < k'" "k' < 2 ^ 24" and j': "- 149 \<le> j'"
    using c03_repr by blast
  have pos: "(0::rat) < of_int k * 2 powi j" "(0::rat) < of_int k' * 2 powi j'"
    using k k' by simp_all
  from s have s': "s = PInf \<or> (\<exists>a. s = Fin a \<and> 0 < a)"
    unfolding r fle_Fin_iff using pos(1) by (auto intro: less_le_trans)
  have top: "fle c005 PInf"
    unfolding r fle_Fin_iff by simp
  have w: "fadd v c03 = PInf \<or> (\<exists>y. fadd v c03 = Fin y \<and> 0 < y)"
  proof -
    from v consider "v = PInf" | b where "v = Fin b" "0 \<le> b"
      unfolding fle_Fin_iff by blast
    then show ?thesis
    proof cases
      case 1
      then show ?thesis by (simp add: r')
    next
      case 2
      have "fle (Fin (of_int k' * 2 powi j')) (fadd (Fin b) (Fin (of_int k' * 2 powi j')))"
        using k' j' 2(2) by (intro fadd_repr_lower) simp_all
      then show ?thesis
        unfolding 2(1) r' fle_Fin_iff using pos(2) by (auto intro: less_le_trans)
    qed
  qed
  have p: "fmul s (fadd v c03) = PInf \<or> (\<exists>z. fmul s (fadd v c03) = Fin z \<and> 0 \<le> z)"
  proof -
    consider "s = PInf" "fadd v c03 = PInf"
      | y where "s = PInf" "fadd v c03 = Fin y" "0 < y"
      | a where "s = Fin a" "0 < a" "fadd v c03 = PInf"
      | a y where "s = Fin a" "0 < a" "fadd v c03 = Fin y" "0 < y"
      using s' w by blast
    then show ?thesis
    proof cases
      case 4
      then show ?thesis using fmul_nonneg [of a y] by simp
    qed simp_all
  qed
  then show ?thesis
  proof
    assume "fmul s (fadd v c03) = PInf"
    then show ?thesis using top by (simp add: r)
  next
    assume "\<exists>z. fmul s (fadd v c03) = Fin z \<and> 0 \<le> z"
    then obtain z where z: "fmul s (fadd v c03) = Fin z" "0 \<le> z" by blast
    show ?thesis
      unfolding z(1) r using k j z(2) by (intro fadd_repr_lower) simp_all
  qed
qed

lemma score_lower_bound_fused:
  assumes s: "fle c005 s" and v: "fle (Fin 0) v"
  shows "fle c005 (ffma s (fadd v c03) c005)"
proof -
  obtain k j where r: "c005 = Fin (of_int k * 2 powi j)" and k: "0 < k" "k < 2 ^ 24" and j: "- 149 \<le> j"
    using c005_repr by blast
  obtain k' j' where r': "c03 = Fin (of_int k' * 2 powi j')" and k': "0 < k'" "k' < 2 ^ 24" and j': "- 149 \<le> j'"
    using c03_repr by blast
  have pos: "(0::rat) < of_int k * 2 powi j" "(0::rat) < of_int k' * 2 powi j'"
    using k k' by simp_all
  from s have s': "s = PInf \<or> (\<exists>a. s = Fin a \<and> 0 < a)"
    unfolding r fle_Fin_iff using pos(1) by (auto intro: less_le_trans)
  have top: "fle c005 PInf"
    unfolding r fle_Fin_iff by simp
  have w: "fadd v c03 = PInf \<or> (\<exists>y. fadd v c03 = Fin y \<and> 0 < y)"
  proof -
    from v consider "v = PInf" | b where "v = Fin b" "0 \<le> b"
      unfolding fle_Fin_iff by blast
    then show ?thesis
    proof cases
      case 1
      then show ?thesis by (simp add: r')
    next
      case 2
      have "fle (Fin (of_int k' * 2 powi j')) (fadd (Fin b) (Fin (of_int k' * 2 powi j')))"
        using k' j' 2(2) by (intro fadd_repr_lower) simp_all
      then show ?thesis
        unfolding 2(1) r' fle_Fin_iff using pos(2) by (auto intro: less_le_trans)
    qed
  qed
  have p: "xmul s (fadd v c03) = PInf \<or> (\<exists>z. xmul s (fadd v c03) = Fin z \<and> 0 \<le> z)"
    using s' w by auto
  then show ?thesis
  proof
    assume "xmul s (fadd v c03) = PInf"
    then show ?thesis using top by (simp add: ffma_def r)
  next
    assume "\<exists>z. xmul s (fadd v c03) = Fin z \<and> 0 \<le> z"
    then obtain z where z: "xmul s (fadd v c03) = Fin z" "0 \<le> z" by blast
    show ?thesis
      unfolding ffma_def z(1) r using k j z(2) by (intro fadd_repr_lower) simp_all
  qed
qed

lemma fle_c005_c05: "fle c005 c05"
  unfolding c005_eq c05_eq by (simp add: fle_def)

lemma c005_above: "fle c005 g \<Longrightarrow> fle (Fin (1 / 20)) g"
  unfolding c005_eq fle_Fin_iff by auto

text \<open>
  The example of the specification, \<open>s = 0.5\<close> and \<open>v = 0.9\<close>: float32(0.9) is
  7549747/8388608, and the new score is 10905191/16777216, about 0.65000004, the binary32
  number above float32(0.65).
\<close>

lemma example_score:
  "fadd (fmul (Fin (1 / 2)) (fadd (Fin (7549747 / 8388608)) c03)) c005 = Fin (10905191 / 16777216)"
proof -
  have 1: "fadd (Fin (7549747 / 8388608)) c03 = Fin (5033165 / 4194304)"
    unfolding c03_eq fadd.simps by (rule rnd_eval [where e = 0 and n = 10066330]; code_simp)
  have 2: "fmul (Fin (1 / 2)) (Fin (5033165 / 4194304)) = Fin (5033165 / 8388608)"
    unfolding fmul.simps by (rule rnd_eval [where e = "- 1" and n = 10066330]; code_simp)
  have 3: "fadd (Fin (5033165 / 8388608)) c005 = Fin (10905191 / 16777216)"
    unfolding c005_eq fadd.simps by (rule rnd_eval [where e = "- 1" and n = 10905191]; code_simp)
  show ?thesis
    by (simp only: 1 2 3)
qed

lemma example_hot_score:
  "fadd (fmul (Fin 2) (fadd (Fin 1) c03)) c005 = Fin (11114905 / 4194304)"
proof -
  have 1: "fadd (Fin 1) c03 = Fin (5452595 / 4194304)"
    unfolding c03_eq fadd.simps by (rule rnd_eval [where e = 0 and n = 10905190]; code_simp)
  have 2: "fmul (Fin 2) (Fin (5452595 / 4194304)) = Fin (5452595 / 2097152)"
    unfolding fmul.simps by (rule rnd_eval [where e = 1 and n = 10905190]; code_simp)
  have 3: "fadd (Fin (5452595 / 2097152)) c005 = Fin (11114905 / 4194304)"
    unfolding c005_eq fadd.simps by (rule rnd_eval [where e = 1 and n = 11114905]; code_simp)
  show ?thesis
    by (simp only: 1 2 3)
qed

lemma example_inputs:
  "rnd (9 / 10) = Fin (7549747 / 8388608)"
  "rnd (65 / 100) = Fin (5452595 / 8388608)"
  by (rule rnd_eval [where e = "- 1" and n = 15099494]; code_simp)
    (rule rnd_eval [where e = "- 1" and n = 10905190]; code_simp)

lemma example_score_is_not_rounded_065:
  "fadd (fmul (Fin (1 / 2)) (fadd (rnd (9 / 10)) c03)) c005 \<noteq> rnd (65 / 100)"
  unfolding example_inputs example_score by simp

subsection \<open>The whitelist check of the model loader\<close>

lemma opIsSafe_loop_iff: "opIsSafe_loop bs a \<longleftrightarrow> a \<in> set bs"
  by (induction bs) auto

lemma set_true_set: "set (set_true ks k) = insert k (set ks)"
  by (auto simp: set_true_def)

lemma set_true_distinct: "distinct ks \<Longrightarrow> distinct (set_true ks k)"
  by (auto simp: set_true_def)

lemma scan_ops_spec:
  "distinct ks \<Longrightarrow>
   distinct (fst (scan_ops g (ks, b))) \<and>
   set (fst (scan_ops g (ks, b))) = set ks \<union> op_type ` {p \<in> set g. \<not> opIsSafe (op_type p)} \<and>
   snd (scan_ops g (ks, b)) = (b \<or> (\<exists>p \<in> set g. \<not> opIsSafe (op_type p)))"
proof (induction g arbitrary: ks b)
  case Nil
  then show ?case by simp
next
  case (Cons p ps)
  show ?case
  proof (cases "opIsSafe (op_type p)")
    case True
    with Cons.IH [OF Cons.prems, of b] show ?thesis by auto
  next
    case False
    with Cons.IH [OF set_true_distinct [OF Cons.prems], of "op_type p" True] show ?thesis
      by (auto simp: set_true_set)
  qed
qed

lemma range_order_perm:
  assumes "visits_each_once ps xs"
  shows "set (range_order ps xs) = set xs"
    and "distinct xs \<Longrightarrow> distinct (range_order ps xs)"
proof -
  from assms have d: "distinct ps" and s: "set ps = {..<length xs}"
    by (simp_all add: visits_each_once_def)
  have f: "filter (\<lambda>i. i < length xs) ps = ps"
    using s by (auto simp: filter_id_conv)
  have "set (range_order ps xs) = (\<lambda>i. xs ! i) ` {..<length xs}"
    unfolding range_order_def f using s by simp
  also have "\<dots> = set xs"
    by (auto simp: set_conv_nth)
  finally show "set (range_order ps xs) = set xs" .
  show "distinct (range_order ps xs)" if "distinct xs"
    unfolding range_order_def f using that d s
    by (auto simp: distinct_map inj_on_def nth_eq_iff_index_eq)
qed

text \<open>
  Claim C3. When the imported graph has an operation whose type is not in the whitelist,
  \<open>newModel\<close> returns the error \<open>unsafe OPs\<close> with the zero model (no session, no
  input, no output), and the lines it prints after the heading are the offending types,
  each of them once, whatever the order in which the runtime visits \<open>unsafeOPs\<close>.
\<close>

theorem newModel_rejects_unsafe_graph:
  assumes rd: "read_file env path = Inr def"
    and imp: "import_graph env def = Inr g"
    and bad: "\<exists>p \<in> set g. \<not> opIsSafe (op_type p)"
    and ord: "distinct (unsafe_order env)"
      "set (unsafe_order env) = {..<card (op_type ` {p \<in> set g. \<not> opIsSafe (op_type p)})}"
  shows "\<exists>printed.
           newModel env path =
             Inr (''The following OP types are not in whitelist:'' # printed,
                  zero_model, Some ''unsafe OPs'') \<and>
           distinct printed \<and>
           set printed = op_type ` {p \<in> set g. \<not> opIsSafe (op_type p)}"
proof -
  obtain ks b where sc: "scan_ops g ([], False) = (ks, b)"
    by (cases "scan_ops g ([], False)")
  from scan_ops_spec [of "[]" g False] sc bad
  have dk: "distinct ks"
    and sk: "set ks = op_type ` {p \<in> set g. \<not> opIsSafe (op_type p)}"
    and b: "b"
    by auto
  from dk sk have "length ks = card (op_type ` {p \<in> set g. \<not> opIsSafe (op_type p)})"
    using distinct_card by fastforce
  with ord have v: "visits_each_once (unsafe_order env) ks"
    by (simp add: visits_each_once_def)
  have "newModel env path =
      Inr (''The following OP types are not in whitelist:'' # range_order (unsafe_order env) ks,
           zero_model, Some ''unsafe OPs'')"
    using rd imp sc b by (simp add: newModel_def)
  with range_order_perm [OF v] dk sk show ?thesis by auto
qed

lemma demo_offending:
  "op_type ` {p \<in> set demo_graph. \<not> opIsSafe (op_type p)} = {''ReadFile'', ''WriteFile''}"
  unfolding set_filter [symmetric]
  by (auto simp: demo_graph_def opIsSafe_def safeOPtypes_def)

theorem newModel_rejects_unsafe_graph_witness:
  "newModel demo_loader ''model.pb'' =
     Inr ([''The following OP types are not in whitelist:'', ''WriteFile'', ''ReadFile''],
          zero_model, Some ''unsafe OPs'') \<and>
   (\<exists>printed.
      newModel demo_loader ''model.pb'' =
        Inr (''The following OP types are not in whitelist:'' # printed,
             zero_model, Some ''unsafe OPs'') \<and>
      distinct printed \<and> set printed = {''ReadFile'', ''WriteFile''})"
proof -
  have c: "card {''ReadFile'', ''WriteFile''} = 2"
    by simp
  have run: "newModel demo_loader ''model.pb'' =
     Inr ([''The following OP types are not in whitelist:'', ''WriteFile'', ''ReadFile''],
          zero_model, Some ''unsafe OPs'')"
    by (simp add: newModel_def demo_loader_def demo_graph_def opIsSafe_def safeOPtypes_def
        set_true_def range_order_def)
  have "\<exists>printed.
      newModel demo_loader ''model.pb'' =
        Inr (''The following OP types are not in whitelist:'' # printed,
             zero_model, Some ''unsafe OPs'') \<and>
      distinct printed \<and>
      set printed = op_type ` {p \<in> set demo_graph. \<not> opIsSafe (op_type p)}"
  proof (rule newModel_rejects_unsafe_graph [of demo_loader "''model.pb''" "''bytes''" demo_graph])
    show "read_file demo_loader ''model.pb'' = Inr ''bytes''"
      by (simp add: demo_loader_def)
    show "import_graph demo_loader ''bytes'' = Inr demo_graph"
      by (simp add: demo_loader_def)
    show "\<exists>p\<in>set demo_graph. \<not> opIsSafe (op_type p)"
      by (simp add: demo_graph_def opIsSafe_def safeOPtypes_def)
    show "distinct (unsafe_order demo_loader)"
      by (simp add: demo_loader_def)
    show "set (unsafe_order demo_loader) =
            {..<card (op_type ` {p \<in> set demo_graph. \<not> opIsSafe (op_type p)})}"
      unfolding demo_offending c by (auto simp: demo_loader_def)
  qed
  with run show ?thesis
    unfolding demo_offending by blast
qed

subsection \<open>The API key in connect\<close>

lemma getEnv_single:
  "getEnv getenv [k] = (if getenv k = [] then Inl (Panic ''can't any find set value'') else Inr (getenv k))"
  by (simp add: getEnv_def Let_def)

text \<open>
  Claim C10, as it is stated, fails for the empty key: \<open>getEnv\<close> panics with its own
  message before the key is sliced.
\<close>

theorem connect_short_key_counterexample:
  "length (os_getenv (hub_env []) ''MSGHUB_API_KEY'') < 16 \<and>
   connect (hub_env []) ''sdr-audio'' = Inl (Panic ''can't any find set value'') \<and>
   connect (hub_env []) ''sdr-audio'' \<noteq> Inl (RuntimeError ''slice bounds out of range'')"
  by (simp add: connect_def getEnv_single hub_env_def)

text \<open>
  Claim C10, amended. With the value \<open>key\<close> of MSGHUB_API_KEY: an empty (or unset) key
  makes \<open>connect\<close> panic in \<open>getEnv\<close>; a key of 1 to 15 bytes makes it panic with the
  run-time error of the slice expression; a key of 16 bytes or more, when MSGHUB_BROKER_URL
  is set, is split into the user name, its first 16 bytes, and the password, the rest, and
  these are the SASL credentials of the configuration the producer is created with.
\<close>

theorem connect_splits_api_key:
  assumes "os_getenv env ''MSGHUB_API_KEY'' = key"
    and "os_getenv env ''MSGHUB_BROKER_URL'' = brokerStr"
    and "populateConfig (new_config env) (take 16 key) (drop 16 key) key = (cfg, err)"
  shows "(key = [] \<longrightarrow> connect env topic = Inl (Panic ''can't any find set value'')) \<and>
         (0 < length key \<and> length key < 16 \<longrightarrow>
            connect env topic = Inl (RuntimeError ''slice bounds out of range'')) \<and>
         (16 \<le> length key \<and> brokerStr \<noteq> [] \<longrightarrow>
            connect env topic =
              Inr (\<lparr>Producer = fst (new_sync_producer env (split_comma brokerStr) cfg),
                    Topic = topic\<rparr>,
                   snd (new_sync_producer env (split_comma brokerStr) cfg)) \<and>
            SASLUser cfg = take 16 key \<and> length (SASLUser cfg) = 16 \<and>
            SASLPassword cfg = drop 16 key \<and>
            SASLUser cfg @ SASLPassword cfg = key)"
  using assms
  by (auto simp: connect_def getEnv_single slice_to_def slice_from_def populateConfig_def
      split: prod.splits)

theorem connect_splits_api_key_witness:
  "connect (hub_env []) ''sdr-audio'' = Inl (Panic ''can't any find set value'') \<and>
   connect (hub_env ''short-key'') ''sdr-audio'' = Inl (RuntimeError ''slice bounds out of range'') \<and>
   connect (hub_env ''0123456789abcdefSECRET'') ''sdr-audio'' =
     Inr (\<lparr>Producer = Some 2, Topic = ''sdr-audio''\<rparr>, None) \<and>
   SASLUser (fst (populateConfig (new_config (hub_env ''0123456789abcdefSECRET''))
                    ''0123456789abcdef'' ''SECRET'' ''0123456789abcdefSECRET''))
     = ''0123456789abcdef'' \<and>
   SASLPassword (fst (populateConfig (new_config (hub_env ''0123456789abcdefSECRET''))
                    ''0123456789abcdef'' ''SECRET'' ''0123456789abcdefSECRET''))
     = ''SECRET''"
  using connect_splits_api_key [of "hub_env []" "[]" "''b1:9093,b2:9093''"
      "fst (populateConfig (new_config (hub_env [])) [] [] [])" None "''sdr-audio''"]
    connect_splits_api_key [of "hub_env ''short-key''" "''short-key''" "''b1:9093,b2:9093''"
      "fst (populateConfig (new_config (hub_env ''short-key'')) ''short-key'' [] ''short-key'')"
      None "''sdr-audio''"]
    connect_splits_api_key [of "hub_env ''0123456789abcdefSECRET''" "''0123456789abcdefSECRET''"
      "''b1:9093,b2:9093''"
      "fst (populateConfig (new_config (hub_env ''0123456789abcdefSECRET''))
              ''0123456789abcdef'' ''SECRET'' ''0123456789abcdefSECRET'')" None "''sdr-audio''"]
  by (simp add: hub_env_def populateConfig_def)

subsection \<open>The station map and discovery\<close>

lemma feq_NaN [simp]: "\<not> feq NaN k" "\<not> feq k NaN"
  by (auto simp: feq_def)

lemma feq_iff: "feq a b \<longleftrightarrow> a = b \<and> a \<noteq> NaN"
  by (auto simp: feq_def)

lemma lookup_NaN [simp]: "lookup m NaN = None"
  by (induction m) auto

lemma lookup_assign: "lookup (assign m k v) k' = (if feq k k' then Some v else lookup m k')"
  by (induction m) (auto simp: feq_iff)

lemma assign_absent: "lookup m k = None \<Longrightarrow> assign m k v = m @ [(k, v)]"
  by (induction m) (auto split: if_splits)

lemma lookup_member: "(k, g) \<in> set m \<Longrightarrow> k \<noteq> NaN \<Longrightarrow> \<exists>g'. lookup m k = Some g'"
  by (induction m) (auto simp: feq_iff)

lemma length_assign: "length m \<le> length (assign m k v)"
  by (induction m) auto

lemma ensureTracked_lookup:
  "lookup (stationGoodness (ensureTracked w station)) k =
     (case lookup (stationGoodness w) k of
        Some g \<Rightarrow> Some g
      | None \<Rightarrow> if feq station k then Some c05 else None)"
  by (auto simp: ensureTracked_def lookup_assign feq_iff split: option.splits)

lemma foldl_ensureTracked_lookup:
  "lookup (stationGoodness (foldl ensureTracked w stations)) k =
     (case lookup (stationGoodness w) k of
        Some g \<Rightarrow> Some g
      | None \<Rightarrow> if k \<in> set stations \<and> k \<noteq> NaN then Some c05 else None)"
proof (induction stations arbitrary: w)
  case Nil
  then show ?case by (simp split: option.splits)
next
  case (Cons a stations)
  show ?case
    unfolding foldl_Cons Cons.IH ensureTracked_lookup
    by (auto simp: feq_iff split: option.splits)
qed

lemma ensureTracked_last [simp]:
  "lastStationsRefresh (ensureTracked w station) = lastStationsRefresh w"
  by (simp add: ensureTracked_def split: option.splits)

lemma foldl_ensureTracked_last [simp]:
  "lastStationsRefresh (foldl ensureTracked w stations) = lastStationsRefresh w"
  by (induction stations arbitrary: w) auto

lemma ensureTracked_length:
  "length (stationGoodness w) \<le> length (stationGoodness (ensureTracked w station))"
  using length_assign [of "stationGoodness w" station c05]
  by (simp add: ensureTracked_def split: option.splits)

lemma foldl_ensureTracked_length:
  "length (stationGoodness w) \<le> length (stationGoodness (foldl ensureTracked w stations))"
proof (induction stations arbitrary: w)
  case Nil
  then show ?case by simp
next
  case (Cons a stations)
  show ?case
    unfolding foldl_Cons
    using Cons.IH [of "ensureTracked w a"] ensureTracked_length [of w a] by linarith
qed

lemma ensureTracked_grows:
  "lookup (stationGoodness w) station = None \<Longrightarrow>
   length (stationGoodness (ensureTracked w station)) = Suc (length (stationGoodness w))"
  by (simp add: ensureTracked_def assign_absent)

lemma foldl_ensureTracked_empty:
  "stationGoodness (foldl ensureTracked w stations) = [] \<longleftrightarrow>
   stationGoodness w = [] \<and> stations = []"
proof (cases stations)
  case Nil
  then show ?thesis by simp
next
  case (Cons a rest)
  have "lookup (stationGoodness w) a = None" if "stationGoodness w = []"
    using that by simp
  then have "stationGoodness w = [] \<Longrightarrow> 0 < length (stationGoodness (ensureTracked w a))"
    using ensureTracked_grows [of w a] by simp
  moreover have "stationGoodness w \<noteq> [] \<Longrightarrow> 0 < length (stationGoodness (ensureTracked w a))"
    using ensureTracked_length [of w a] by (cases "stationGoodness w") auto
  ultimately have "0 < length (stationGoodness (ensureTracked w a))"
    by blast
  with foldl_ensureTracked_length [of "ensureTracked w a" rest]
  have "0 < length (stationGoodness (foldl ensureTracked w stations))"
    unfolding Cons foldl_Cons by linarith
  then show ?thesis using Cons by auto
qed

lemma refresh_skipped:
  "\<not> five_minutes < time_sub (now_check t) (lastStationsRefresh w) \<Longrightarrow> refresh su t w = Inr w"
  by (simp add: refresh_def)

lemma refresh_error:
  "five_minutes < time_sub (now_check t) (lastStationsRefresh w) \<Longrightarrow> discovered t = Inl e \<Longrightarrow>
   refresh su t w = Inl (Panic e, trace w @ [CallGetCeilingSignals (hostname su) (- 8)])"
  by (simp add: refresh_def)

lemma refresh_none:
  "five_minutes < time_sub (now_check t) (lastStationsRefresh w) \<Longrightarrow> discovered t = Inr [] \<Longrightarrow>
   stationGoodness w = [] \<Longrightarrow>
   refresh su t w = Inl (Panic ''No FM stations. Move the antenna?'',
                         trace w @ [CallGetCeilingSignals (hostname su) (- 8)])"
  by (simp add: refresh_def)

lemma refresh_some:
  assumes "five_minutes < time_sub (now_check t) (lastStationsRefresh w)"
    and "discovered t = Inr stations" and "stationGoodness w \<noteq> [] \<or> stations \<noteq> []"
  shows "\<exists>w'. refresh su t w = Inr w' \<and> lastStationsRefresh w' = now_record t \<and>
           stationGoodness w' =
             stationGoodness (foldl ensureTracked
               (w\<lparr>trace := trace w @ [CallGetCeilingSignals (hostname su) (- 8)]\<rparr>) stations)"
proof -
  let ?w0 = "w\<lparr>trace := trace w @ [CallGetCeilingSignals (hostname su) (- 8)]\<rparr>"
  have "stationGoodness (foldl ensureTracked ?w0 stations) \<noteq> []"
    using assms(3) by (simp add: foldl_ensureTracked_empty)
  then have "\<not> length (stationGoodness (foldl ensureTracked ?w0 stations)) < 1"
    by (cases "stationGoodness (foldl ensureTracked ?w0 stations)") auto
  then show ?thesis
    using assms(1,2) by (simp add: refresh_def Let_def)
qed

lemma time_sub_within:
  "t - u \<le> five_minutes \<Longrightarrow> \<not> five_minutes < time_sub t u"
  by (simp add: time_sub_def Let_def five_minutes_def maxDuration_def minDuration_def)

lemma first_due:
  "five_minutes < time_sub (now_check quiet_tick) (lastStationsRefresh initial_world)"
  "five_minutes < time_sub (now_check quiet_tick) (lastStationsRefresh one_station)"
  "five_minutes < time_sub (now_check failing_tick) (lastStationsRefresh one_station)"
  by (simp_all add: quiet_tick_def failing_tick_def initial_world_def one_station_def zero_time_def
      time_sub_def maxDuration_def minDuration_def five_minutes_def)

text \<open>
  Claim C4, as it is stated for every station, fails for a station whose frequency is a NaN:
  it is never found in the map, so it has no score after its discovery and every discovery
  adds one more entry for it.
\<close>

theorem ensureTracked_NaN_counterexample:
  "lookup (stationGoodness initial_world) NaN = None \<and>
   lookup (stationGoodness (ensureTracked initial_world NaN)) NaN = None \<and>
   stationGoodness (ensureTracked initial_world NaN) = [(NaN, c05)] \<and>
   stationGoodness (ensureTracked (ensureTracked initial_world NaN) NaN) = [(NaN, c05), (NaN, c05)]"
  by (simp add: ensureTracked_def initial_world_def)

text \<open>
  Claim C4, amended. For a station whose frequency is not a NaN: when it is not in the map,
  the discovery step adds the entry \<open>(station, 0.5)\<close> and its score is then exactly 0.5;
  when it is in the map, nothing changes; doing the step twice is doing it once; and after a
  discovery that returned the station, before any sampling, the score of a station that was
  not tracked is 0.5.
\<close>

theorem ensureTracked_inserts_half:
  assumes "station \<noteq> NaN"
  shows "(lookup (stationGoodness w) station = None \<longrightarrow>
            stationGoodness (ensureTracked w station) = stationGoodness w @ [(station, Fin (1 / 2))] \<and>
            lookup (stationGoodness (ensureTracked w station)) station = Some (Fin (1 / 2))) \<and>
         (lookup (stationGoodness w) station \<noteq> None \<longrightarrow> ensureTracked w station = w) \<and>
         ensureTracked (ensureTracked w station) station = ensureTracked w station \<and>
         (\<forall>t stations w'.
            five_minutes < time_sub (now_check t) (lastStationsRefresh w) \<and>
            refresh su t w = Inr w' \<and> discovered t = Inr stations \<and> station \<in> set stations \<and>
            lookup (stationGoodness w) station = None \<longrightarrow>
            lookup (stationGoodness w') station = Some (Fin (1 / 2)))"
proof -
  have a: "lookup (stationGoodness (ensureTracked w station)) station \<noteq> None"
    using assms by (simp add: ensureTracked_lookup feq_iff split: option.splits)
  have b: "ensureTracked w' station = w'" if "lookup (stationGoodness w') station \<noteq> None" for w'
    using that by (auto simp: ensureTracked_def)
  have c: "lookup (stationGoodness w') station = Some (Fin (1 / 2))"
    if "refresh su t w = Inr w'" "discovered t = Inr stations" "station \<in> set stations"
      "lookup (stationGoodness w) station = None"
      "five_minutes < time_sub (now_check t) (lastStationsRefresh w)" for t stations w'
  proof -
    from that(1,2,5) have "stationGoodness w' =
        stationGoodness (foldl ensureTracked
          (w\<lparr>trace := trace w @ [CallGetCeilingSignals (hostname su) (- 8)]\<rparr>) stations)"
      by (auto simp: refresh_def Let_def split: if_splits)
    then show ?thesis
      using that(3,4) assms by (simp add: foldl_ensureTracked_lookup c05_eq)
  qed
  have d: "stationGoodness (ensureTracked w station) = stationGoodness w @ [(station, Fin (1 / 2))]"
    if "lookup (stationGoodness w) station = None"
    using that by (simp add: ensureTracked_def assign_absent c05_eq)
  have e: "lookup (stationGoodness (ensureTracked w station)) station = Some (Fin (1 / 2))"
    if "lookup (stationGoodness w) station = None"
    using that assms by (simp add: ensureTracked_lookup feq_iff c05_eq)
  show ?thesis
    using a b [of "ensureTracked w station"] b [of w] c d e by blast
qed

theorem ensureTracked_inserts_half_witness:
  "stationGoodness (ensureTracked initial_world (Fin 101100000)) = [(Fin 101100000, Fin (1 / 2))] \<and>
   lookup (stationGoodness (ensureTracked initial_world (Fin 101100000))) (Fin 101100000)
     = Some (Fin (1 / 2)) \<and>
   ensureTracked one_station (Fin 101100000) = one_station \<and>
   ensureTracked (ensureTracked initial_world (Fin 101100000)) (Fin 101100000)
     = ensureTracked initial_world (Fin 101100000) \<and>
   (\<exists>w'. refresh demo_settings first_tick initial_world = Inr w' \<and>
         lookup (stationGoodness w') (Fin 101100000) = Some (Fin (1 / 2)))"
proof -
  have n: "Fin 101100000 \<noteq> NaN"
    by simp
  have due: "five_minutes < time_sub (now_check first_tick) (lastStationsRefresh initial_world)"
    by (simp add: first_tick_def initial_world_def zero_time_def time_sub_def maxDuration_def
        minDuration_def five_minutes_def)
  have d: "discovered first_tick = Inr [Fin 101100000]"
    by (simp add: first_tick_def)
  have l0: "lookup (stationGoodness initial_world) (Fin 101100000) = None"
    by (simp add: initial_world_def)
  have l1: "lookup (stationGoodness one_station) (Fin 101100000) \<noteq> None"
    by (simp add: one_station_def feq_def)
  obtain w' where r: "refresh demo_settings first_tick initial_world = Inr w'"
    using refresh_some [OF due d, of demo_settings] by auto
  note th = ensureTracked_inserts_half [OF n]
  have e: "stationGoodness initial_world = []"
    by (simp add: initial_world_def)
  from th [of initial_world demo_settings] l0
  have "stationGoodness (ensureTracked initial_world (Fin 101100000))
          = stationGoodness initial_world @ [(Fin 101100000, Fin (1 / 2))]"
    and 2: "lookup (stationGoodness (ensureTracked initial_world (Fin 101100000))) (Fin 101100000)
              = Some (Fin (1 / 2))"
    and 3: "ensureTracked (ensureTracked initial_world (Fin 101100000)) (Fin 101100000)
              = ensureTracked initial_world (Fin 101100000)"
    by blast+
  then have 1: "stationGoodness (ensureTracked initial_world (Fin 101100000)) = [(Fin 101100000, Fin (1 / 2))]"
    by (simp only: e append_Nil)
  have "Fin 101100000 \<in> set [Fin 101100000]"
    by simp
  with th [of initial_world demo_settings] due r d l0
  have 4: "lookup (stationGoodness w') (Fin 101100000) = Some (Fin (1 / 2))"
    by blast
  from th [of one_station demo_settings] l1
  have 5: "ensureTracked one_station (Fin 101100000) = one_station"
    by blast
  from 1 2 3 4 5 r show ?thesis
    by blast
qed

text \<open>
  Claim C6. When a discovery is due and returns no station: with an empty map the turn
  panics with the message of line 233 after the one call to the SDR service, with no visit
  of any station, and the loop stops there; with a map that is not empty the discovery
  returns normally, having printed its two lines and recorded the time.
\<close>

theorem no_stations_is_fatal:
  assumes "five_minutes < time_sub (now_check t) (lastStationsRefresh w)"
    and "discovered t = Inr []"
  shows "(stationGoodness w = [] \<longrightarrow>
            loop_iteration su t w =
              Inl (Panic ''No FM stations. Move the antenna?'',
                   trace w @ [CallGetCeilingSignals (hostname su) (- 8)]) \<and>
            main_loop su (t # ts) w =
              Inl (Panic ''No FM stations. Move the antenna?'',
                   trace w @ [CallGetCeilingSignals (hostname su) (- 8)])) \<and>
         (stationGoodness w \<noteq> [] \<longrightarrow>
            refresh su t w =
              Inr (w\<lparr>trace := trace w @ [CallGetCeilingSignals (hostname su) (- 8), PrintFound 0,
                                          PrintMap (stationGoodness w)],
                     lastStationsRefresh := now_record t\<rparr>))"
proof (intro conjI impI)
  assume e: "stationGoodness w = []"
  show "loop_iteration su t w =
          Inl (Panic ''No FM stations. Move the antenna?'',
               trace w @ [CallGetCeilingSignals (hostname su) (- 8)])"
    by (simp add: loop_iteration_def refresh_none [OF assms e])
  then show "main_loop su (t # ts) w =
          Inl (Panic ''No FM stations. Move the antenna?'',
               trace w @ [CallGetCeilingSignals (hostname su) (- 8)])"
    by simp
next
  assume "stationGoodness w \<noteq> []"
  then have "\<not> length (stationGoodness w) < 1"
    by (cases "stationGoodness w") auto
  then show "refresh su t w =
          Inr (w\<lparr>trace := trace w @ [CallGetCeilingSignals (hostname su) (- 8), PrintFound 0,
                                      PrintMap (stationGoodness w)],
                 lastStationsRefresh := now_record t\<rparr>)"
    using assms by (simp add: refresh_def)
qed

theorem no_stations_is_fatal_witness:
  "loop_iteration demo_settings quiet_tick initial_world =
     Inl (Panic ''No FM stations. Move the antenna?'', [CallGetCeilingSignals ''sdr'' (- 8)]) \<and>
   main_loop demo_settings [quiet_tick, first_tick] initial_world =
     Inl (Panic ''No FM stations. Move the antenna?'', [CallGetCeilingSignals ''sdr'' (- 8)]) \<and>
   refresh demo_settings quiet_tick one_station =
     Inr (one_station\<lparr>trace := [CallGetCeilingSignals ''sdr'' (- 8), PrintFound 0,
                                  PrintMap [(Fin 101100000, Fin (1 / 2))]],
                      lastStationsRefresh := 1700000401000000000\<rparr>)"
proof -
  have d: "discovered quiet_tick = Inr []"
    by (simp add: quiet_tick_def)
  show ?thesis
    using no_stations_is_fatal [OF first_due(1) d, of demo_settings "[first_tick]"]
      no_stations_is_fatal [OF first_due(2) d, of demo_settings]
    by (simp add: initial_world_def one_station_def demo_settings_def quiet_tick_def)
qed

text \<open>
  Claim C7, as it is stated, fails: a discovery that returns an error panics, and so does one
  that leaves the map empty. Neither records a time and no later turn exists.
\<close>

theorem refresh_error_counterexample:
  "refresh demo_settings failing_tick one_station =
     Inl (Panic ''connection refused'', [CallGetCeilingSignals ''sdr'' (- 8)]) \<and>
   main_loop demo_settings [failing_tick, soon_tick] one_station =
     Inl (Panic ''connection refused'', [CallGetCeilingSignals ''sdr'' (- 8)]) \<and>
   refresh demo_settings quiet_tick initial_world =
     Inl (Panic ''No FM stations. Move the antenna?'', [CallGetCeilingSignals ''sdr'' (- 8)])"
proof -
  have "discovered failing_tick = Inl ''connection refused''"
    by (simp add: failing_tick_def)
  from refresh_error [OF first_due(3) this, of demo_settings]
  have 1: "refresh demo_settings failing_tick one_station =
     Inl (Panic ''connection refused'', [CallGetCeilingSignals ''sdr'' (- 8)])"
    by (simp add: demo_settings_def one_station_def)
  have "discovered quiet_tick = Inr []" "stationGoodness initial_world = []"
    by (simp_all add: quiet_tick_def initial_world_def)
  from refresh_none [OF first_due(1) this, of demo_settings]
  have 2: "refresh demo_settings quiet_tick initial_world =
     Inl (Panic ''No FM stations. Move the antenna?'', [CallGetCeilingSignals ''sdr'' (- 8)])"
    by (simp add: demo_settings_def initial_world_def)
  show ?thesis
    using 1 2 by (simp add: loop_iteration_def)
qed

text \<open>
  Claim C7, amended. A turn that starts no more than five minutes after the recorded time
  skips the discovery: no call, no change. When the discovery runs, an error from the SDR
  service panics, an empty result with an empty map panics, and in every other case (also an
  empty result with tracked stations) the time read after the discovery is recorded.
\<close>

theorem refresh_interval_and_timestamp:
  "(now_check t - lastStationsRefresh w \<le> five_minutes \<longrightarrow> refresh su t w = Inr w) \<and>
   (five_minutes < time_sub (now_check t) (lastStationsRefresh w) \<longrightarrow>
      (\<forall>e. discovered t = Inl e \<longrightarrow>
           refresh su t w = Inl (Panic e, trace w @ [CallGetCeilingSignals (hostname su) (- 8)])) \<and>
      (\<forall>stations. discovered t = Inr stations \<longrightarrow>
           (stationGoodness w = [] \<and> stations = [] \<longrightarrow>
              refresh su t w =
                Inl (Panic ''No FM stations. Move the antenna?'',
                     trace w @ [CallGetCeilingSignals (hostname su) (- 8)])) \<and>
           (stationGoodness w \<noteq> [] \<or> stations \<noteq> [] \<longrightarrow>
              (\<exists>w'. refresh su t w = Inr w' \<and> lastStationsRefresh w' = now_record t))))"
  using refresh_skipped [OF time_sub_within, of t w su] refresh_error [of t w _ su]
    refresh_none [of t w su] refresh_some [of t w _ su]
  by blast

theorem refresh_interval_and_timestamp_witness:
  "refresh demo_settings soon_tick one_station = Inr one_station \<and>
   refresh demo_settings failing_tick one_station =
     Inl (Panic ''connection refused'', [CallGetCeilingSignals ''sdr'' (- 8)]) \<and>
   refresh demo_settings quiet_tick initial_world =
     Inl (Panic ''No FM stations. Move the antenna?'', [CallGetCeilingSignals ''sdr'' (- 8)]) \<and>
   (\<exists>w'. refresh demo_settings quiet_tick one_station = Inr w' \<and>
         lastStationsRefresh w' = 1700000401000000000)"
proof -
  have a: "now_check soon_tick - lastStationsRefresh one_station \<le> five_minutes"
    by (simp add: soon_tick_def one_station_def five_minutes_def)
  have b: "discovered failing_tick = Inl ''connection refused''"
    "discovered quiet_tick = Inr []" "stationGoodness initial_world = []"
    "stationGoodness one_station \<noteq> []" "now_record quiet_tick = 1700000401000000000"
    "trace one_station = []" "trace initial_world = []" "hostname demo_settings = ''sdr''"
    by (simp_all add: failing_tick_def quiet_tick_def initial_world_def one_station_def
        demo_settings_def)
  show ?thesis
    using refresh_interval_and_timestamp [of soon_tick one_station demo_settings]
      refresh_interval_and_timestamp [of failing_tick one_station demo_settings]
      refresh_interval_and_timestamp [of quiet_tick initial_world demo_settings]
      refresh_interval_and_timestamp [of quiet_tick one_station demo_settings]
      a first_due b
    by (metis append_Nil)
qed

subsection \<open>The visit of one station\<close>

lemma visit_station_skipped:
  "\<not> flt (draw io) goodness \<Longrightarrow> visit_station su (station, goodness) io w = Inr w"
  by (simp add: visit_station_def)

lemma visit_station_sampled:
  assumes "flt (draw io) goodness" "captured io = Inr a" "inferred io = Inr v"
  shows "visit_station su (station, goodness) io w =
           Inr (w\<lparr>stationGoodness := estimator_update (stationGoodness w) station v,
                  trace := trace w @
                    [CallGetAudio (hostname su) station, CallGoodness a,
                     PrintObserved station v (index (estimator_update (stationGoodness w) station v) station)] @
                    (if fgt v c05
                     then CallSendMessage (Topic (conn su))
                            \<lparr>Audio = a, Ts = stamp io, Freq = station, ExpectedValue = v,
                             DevID = devID su\<rparr> #
                          (case sent io of Inl e \<Rightarrow> [LogFailed e, PrintErr e]
                           | Inr (part, off) \<Rightarrow> [LogSent part off])
                     else [])\<rparr>)"
  using assms
  by (simp add: visit_station_def publishAudio_def Let_def split: sum.splits prod.splits)

lemma lookup_estimator_update:
  "lookup (estimator_update m station v) k =
     (if feq station k then Some (fadd (fmul (index m station) (fadd v c03)) c005) else lookup m k)"
  by (simp add: estimator_update_def lookup_assign)

lemma speech_facts:
  "flt (draw speech_visit) (Fin (1 / 2))" "captured speech_visit = Inr ''pcm''"
  "inferred speech_visit = Inr (Fin (7549747 / 8388608))"
  by (simp_all add: speech_visit_def)

lemma threshold_facts:
  "flt (draw threshold_visit) (Fin (1 / 2))" "captured threshold_visit = Inr ''pcm''"
  "inferred threshold_visit = Inr (Fin (1 / 2))"
  by (simp_all add: threshold_visit_def speech_visit_def)

lemma failed_send_facts:
  "flt (draw failed_send_visit) (Fin (1 / 2))" "captured failed_send_visit = Inr ''pcm''"
  "inferred failed_send_visit = Inr (Fin (7549747 / 8388608))"
  "sent failed_send_visit = Inl ''kafka: broker down''"
  by (simp_all add: failed_send_visit_def speech_visit_def)

text \<open>
  Claim C1. For a tracked station with score \<open>s\<close> that is sampled, captured and scored with
  \<open>v\<close>, the visit stores \<open>s*(v+0.3)+0.05\<close> as the new score of the station and leaves the
  other stations alone. The formula is the float32 expression of line 251: the constants and
  every operation are rounded to float32. Nothing clamps the value: the equation holds for
  every \<open>s\<close> and \<open>v\<close>, inside \<open>[0,1]\<close> or not.
\<close>

theorem estimator_update_formula:
  assumes "lookup (stationGoodness w) station = Some s"
    and "flt (draw io) goodness" and "captured io = Inr a" and "inferred io = Inr v"
  shows "\<exists>w'. visit_station su (station, goodness) io w = Inr w' \<and>
           stationGoodness w' = estimator_update (stationGoodness w) station v \<and>
           lookup (stationGoodness w') station = Some (fadd (fmul s (fadd v c03)) c005) \<and>
           (\<forall>k. k \<noteq> station \<longrightarrow> lookup (stationGoodness w') k = lookup (stationGoodness w) k)"
proof -
  from assms(1) have "station \<noteq> NaN"
    by auto
  then show ?thesis
    using assms(1) unfolding visit_station_sampled [OF assms(2-4)]
    by (simp add: lookup_estimator_update feq_iff index_def)
qed

theorem estimator_update_formula_witness:
  "(\<exists>w'. visit_station demo_settings (Fin 101100000, Fin (1 / 2)) speech_visit one_station = Inr w' \<and>
         lookup (stationGoodness w') (Fin 101100000) = Some (Fin (10905191 / 16777216))) \<and>
   (\<exists>w'. visit_station demo_settings (Fin 101100000, Fin 2) sure_visit hot_station = Inr w' \<and>
         lookup (stationGoodness w') (Fin 101100000) = Some (Fin (11114905 / 4194304)) \<and>
         flt (Fin 1) (Fin (11114905 / 4194304)))"
proof -
  have a: "lookup (stationGoodness one_station) (Fin 101100000) = Some (Fin (1 / 2))"
    by (simp add: one_station_def feq_def)
  have b: "lookup (stationGoodness hot_station) (Fin 101100000) = Some (Fin 2)"
    by (simp add: hot_station_def feq_def)
  have c: "flt (draw speech_visit) (Fin (1 / 2))" "captured speech_visit = Inr ''pcm''"
    "inferred speech_visit = Inr (Fin (7549747 / 8388608))"
    by (simp_all add: speech_visit_def)
  have d: "flt (draw sure_visit) (Fin 2)" "captured sure_visit = Inr ''pcm''"
    "inferred sure_visit = Inr (Fin 1)"
    by (simp_all add: sure_visit_def speech_visit_def)
  show ?thesis
    using estimator_update_formula [OF a c, of demo_settings]
      estimator_update_formula [OF b d, of demo_settings]
    unfolding example_score example_hot_score by auto
qed

text \<open>
  Claim C2. For a station that is sampled, captured and scored with \<open>v\<close>, the events the
  visit adds contain a call of \<open>SendMessage\<close> exactly when \<open>v > 0.5\<close>, and the message sent
  carries the audio, the time stamp, the station, \<open>v\<close> and the device id.
\<close>

theorem publish_iff_above_half:
  assumes "flt (draw io) goodness" and "captured io = Inr a" and "inferred io = Inr v"
  shows "\<exists>w' evs. visit_station su (station, goodness) io w = Inr w' \<and>
           trace w' = trace w @ evs \<and>
           ((\<exists>topic msg. CallSendMessage topic msg \<in> set evs) \<longleftrightarrow> fgt v c05) \<and>
           (fgt v c05 \<longrightarrow>
              CallSendMessage (Topic (conn su))
                \<lparr>Audio = a, Ts = stamp io, Freq = station, ExpectedValue = v, DevID = devID su\<rparr>
              \<in> set evs)"
  unfolding visit_station_sampled [OF assms]
  by (cases "fgt v c05") (auto split: sum.splits)

theorem publish_iff_above_half_witness:
  "(\<exists>w' evs. visit_station demo_settings (Fin 101100000, Fin (1 / 2)) speech_visit one_station = Inr w' \<and>
       trace w' = trace one_station @ evs \<and>
       CallSendMessage ''sdr-audio''
         \<lparr>Audio = ''pcm'', Ts = 1700000040, Freq = Fin 101100000,
          ExpectedValue = Fin (7549747 / 8388608), DevID = ''myorg/pi4''\<rparr> \<in> set evs) \<and>
   (\<exists>w' evs. visit_station demo_settings (Fin 101100000, Fin (1 / 2)) threshold_visit one_station = Inr w' \<and>
       trace w' = trace one_station @ evs \<and>
       \<not> (\<exists>topic msg. CallSendMessage topic msg \<in> set evs))"
proof -
  have a: "fgt (Fin (7549747 / 8388608)) c05" and b: "\<not> fgt (Fin (1 / 2)) c05"
    by (simp_all add: fgt_def c05_eq)
  have c: "Topic (conn demo_settings) = ''sdr-audio''" "stamp speech_visit = 1700000040"
    "devID demo_settings = ''myorg/pi4''"
    by (simp_all add: demo_settings_def speech_visit_def)
  show ?thesis
    using publish_iff_above_half [OF speech_facts, of demo_settings "Fin 101100000" one_station]
      publish_iff_above_half [OF threshold_facts, of demo_settings "Fin 101100000" one_station]
      a b
    unfolding c by metis
qed

text \<open>
  Claim C5. When the send fails, the visit still returns normally: the failure is logged, the
  pass goes on with the rest of its plan from the state the visit leaves, and that state holds
  the updated score of the station.
\<close>

theorem publish_failure_recoverable:
  assumes "i < length (stationGoodness w)" and "stationGoodness w ! i = (station, goodness)"
    and "flt (draw io) goodness" and "captured io = Inr a" and "inferred io = Inr v"
    and "fgt v c05" and "sent io = Inl e"
  shows "\<exists>w'. visit_station su (station, goodness) io w = Inr w' \<and>
           sampling_pass su ((i, io) # rest) w = sampling_pass su rest w' \<and>
           LogFailed e \<in> set (trace w') \<and>
           stationGoodness w' = estimator_update (stationGoodness w) station v \<and>
           lastStationsRefresh w' = lastStationsRefresh w \<and>
           (\<forall>s. lookup (stationGoodness w) station = Some s \<longrightarrow>
                lookup (stationGoodness w') station = Some (fadd (fmul s (fadd v c03)) c005))"
proof -
  have "lookup (stationGoodness w) station = Some s \<Longrightarrow> station \<noteq> NaN" for s
    by auto
  then show ?thesis
    using assms(1,2,6,7) visit_station_sampled [OF assms(3-5), of su station w]
    by (auto simp: lookup_estimator_update feq_iff index_def)
qed

theorem publish_failure_recoverable_witness:
  "\<exists>w'. visit_station demo_settings (Fin 101100000, Fin (1 / 2)) failed_send_visit one_station = Inr w' \<and>
        sampling_pass demo_settings [(0, failed_send_visit), (0, threshold_visit)] one_station
          = sampling_pass demo_settings [(0, threshold_visit)] w' \<and>
        LogFailed ''kafka: broker down'' \<in> set (trace w') \<and>
        lookup (stationGoodness w') (Fin 101100000) = Some (Fin (10905191 / 16777216))"
proof -
  have a: "0 < length (stationGoodness one_station)"
    "stationGoodness one_station ! 0 = (Fin 101100000, Fin (1 / 2))"
    "lookup (stationGoodness one_station) (Fin 101100000) = Some (Fin (1 / 2))"
    by (simp_all add: one_station_def feq_def)
  have b: "fgt (Fin (7549747 / 8388608)) c05"
    by (simp add: fgt_def c05_eq)
  from publish_failure_recoverable [OF a(1,2) failed_send_facts(1-3) b failed_send_facts(4),
      of demo_settings "[(0, threshold_visit)]"]
  obtain w' where w: "visit_station demo_settings (Fin 101100000, Fin (1 / 2)) failed_send_visit one_station = Inr w'"
      "sampling_pass demo_settings [(0, failed_send_visit), (0, threshold_visit)] one_station
          = sampling_pass demo_settings [(0, threshold_visit)] w'"
      "LogFailed ''kafka: broker down'' \<in> set (trace w')"
      "\<forall>s. lookup (stationGoodness one_station) (Fin 101100000) = Some s \<longrightarrow>
           lookup (stationGoodness w') (Fin 101100000)
             = Some (fadd (fmul s (fadd (Fin (7549747 / 8388608)) c03)) c005)"
    by blast
  from w(4) a(3) have "lookup (stationGoodness w') (Fin 101100000) = Some (Fin (10905191 / 16777216))"
    unfolding example_score [symmetric] by blast
  with w(1-3) show ?thesis
    by blast
qed

text \<open>
  Claim C8. A visit captures audio, its first event, exactly when the draw is less than the
  score of the entry; otherwise it does nothing. Every draw that samples a station samples it
  at any higher score, so of any draws at least as many sample it at the higher score; and a
  score of 1 or more is sampled by every draw below 1.
\<close>

theorem sampled_iff_draw_below_score:
  "(flt (draw io) goodness \<longrightarrow>
      (\<exists>p evs. visit_station su (station, goodness) io w =
                  Inl (p, trace w @ CallGetAudio (hostname su) station # evs)) \<or>
      (\<exists>w' evs. visit_station su (station, goodness) io w = Inr w' \<and>
                  trace w' = trace w @ CallGetAudio (hostname su) station # evs)) \<and>
   (\<not> flt (draw io) goodness \<longrightarrow> visit_station su (station, goodness) io w = Inr w) \<and>
   (fle g g' \<and> flt r g \<longrightarrow> flt r g') \<and>
   (fle g g' \<longrightarrow> length (filter (\<lambda>r. flt r g) draws) \<le> length (filter (\<lambda>r. flt r g') draws)) \<and>
   (fle (Fin 1) g \<and> flt r (Fin 1) \<longrightarrow> flt r g)"
proof (intro conjI impI)
  assume s: "flt (draw io) goodness"
  show "(\<exists>p evs. visit_station su (station, goodness) io w =
                  Inl (p, trace w @ CallGetAudio (hostname su) station # evs)) \<or>
      (\<exists>w' evs. visit_station su (station, goodness) io w = Inr w' \<and>
                  trace w' = trace w @ CallGetAudio (hostname su) station # evs)"
  proof (cases "captured io")
    case (Inl e)
    then show ?thesis using s by (simp add: visit_station_def)
  next
    case a: (Inr a)
    show ?thesis
    proof (cases "inferred io")
      case (Inl e)
      then show ?thesis using s a by (simp add: visit_station_def)
    next
      case (Inr v)
      show ?thesis unfolding visit_station_sampled [OF s a Inr] by simp
    qed
  qed
next
  assume "\<not> flt (draw io) goodness"
  then show "visit_station su (station, goodness) io w = Inr w"
    by (rule visit_station_skipped)
next
  assume "fle g g' \<and> flt r g"
  then show "flt r g'" using flt_fle_trans by blast
next
  assume "fle g g'"
  then have "length (filter (\<lambda>r. flt r g) ds) \<le> length (filter (\<lambda>r. flt r g') ds)" for ds
    by (induction ds) (auto dest: flt_fle_trans)
  then show "length (filter (\<lambda>r. flt r g) draws) \<le> length (filter (\<lambda>r. flt r g') draws)" .
next
  assume "fle (Fin 1) g \<and> flt r (Fin 1)"
  then show "flt r g" using flt_fle_trans by blast
qed

theorem sampled_iff_draw_below_score_witness:
  "((\<exists>p evs. visit_station demo_settings (Fin 101100000, Fin (1 / 2)) speech_visit one_station =
                Inl (p, trace one_station @ CallGetAudio ''sdr'' (Fin 101100000) # evs)) \<or>
    (\<exists>w' evs. visit_station demo_settings (Fin 101100000, Fin (1 / 2)) speech_visit one_station = Inr w' \<and>
                trace w' = trace one_station @ CallGetAudio ''sdr'' (Fin 101100000) # evs)) \<and>
   visit_station demo_settings (Fin 101100000, Fin (1 / 8)) speech_visit one_station = Inr one_station \<and>
   flt (Fin (1 / 4)) (Fin 2) \<and>
   length (filter (\<lambda>r. flt r (Fin (1 / 2))) [Fin 0, Fin (1 / 4), Fin (3 / 4)])
     \<le> length (filter (\<lambda>r. flt r (Fin 2)) [Fin 0, Fin (1 / 4), Fin (3 / 4)]) \<and>
   flt (Fin (3 / 4)) (Fin 2)"
proof -
  have a: "flt (draw speech_visit) (Fin (1 / 2))" "\<not> flt (draw speech_visit) (Fin (1 / 8))"
    "fle (Fin (1 / 2)) (Fin 2)" "flt (Fin (1 / 4)) (Fin (1 / 2))"
    "fle (Fin 1) (Fin 2)" "flt (Fin (3 / 4)) (Fin 1)" "hostname demo_settings = ''sdr''"
    by (simp_all add: speech_visit_def fle_def demo_settings_def)
  show ?thesis
    using sampled_iff_draw_below_score [of speech_visit "Fin (1 / 2)" demo_settings "Fin 101100000"
        one_station "Fin (1 / 2)" "Fin 2" "Fin (1 / 4)" "[Fin 0, Fin (1 / 4), Fin (3 / 4)]"]
      sampled_iff_draw_below_score [of speech_visit "Fin (1 / 8)" demo_settings "Fin 101100000"
        one_station "Fin 1" "Fin 2" "Fin (3 / 4)" "[]"]
      a
    by metis
qed

subsection \<open>The lower bound of the scores\<close>

lemma visit_station_floor:
  assumes inv: "\<forall>k g. lookup (stationGoodness w) k = Some g \<longrightarrow> fle c005 g"
    and mem: "(station, goodness) \<in> set (stationGoodness w)"
    and ok: "nonneg_inferred io"
    and run: "visit_station su (station, goodness) io w = Inr w'"
  shows "\<forall>k g. lookup (stationGoodness w') k = Some g \<longrightarrow> fle c005 g"
proof (cases "flt (draw io) goodness")
  case False
  with run inv show ?thesis by (simp add: visit_station_skipped)
next
  case True
  from run True obtain a where a: "captured io = Inr a"
    by (cases "captured io") (auto simp: visit_station_def)
  from run True a obtain v where v: "inferred io = Inr v"
    by (cases "inferred io") (auto simp: visit_station_def)
  from ok v have v0: "fle (Fin 0) v"
    by (simp add: nonneg_inferred_def)
  from run have m: "stationGoodness w' = estimator_update (stationGoodness w) station v"
    unfolding visit_station_sampled [OF True a v] by auto
  show ?thesis
  proof (intro allI impI)
    fix k g
    assume l: "lookup (stationGoodness w') k = Some g"
    show "fle c005 g"
    proof (cases "feq station k")
      case False
      with l inv show ?thesis by (simp add: m lookup_estimator_update)
    next
      case True
      then have g: "g = fadd (fmul (index (stationGoodness w) station) (fadd v c03)) c005"
        using l by (simp add: m lookup_estimator_update)
      show ?thesis
      proof (cases "lookup (stationGoodness w) station")
        case None
        with lookup_member [OF mem] True show ?thesis
          by (auto simp: feq_iff)
      next
        case (Some s)
        with inv have "fle c005 s" by blast
        then show ?thesis
          unfolding g index_def Some using v0 by (simp add: score_lower_bound)
      qed
    qed
  qed
qed

lemma sampling_pass_floor:
  assumes "\<forall>k g. lookup (stationGoodness w) k = Some g \<longrightarrow> fle c005 g"
    and "\<forall>(i, io) \<in> set pl. nonneg_inferred io"
    and "sampling_pass su pl w = Inr w'"
  shows "\<forall>k g. lookup (stationGoodness w') k = Some g \<longrightarrow> fle c005 g"
  using assms
proof (induction pl arbitrary: w)
  case Nil
  then show ?case by simp
next
  case (Cons x pl)
  obtain i io where x: "x = (i, io)" by (cases x)
  show ?case
  proof (cases "i < length (stationGoodness w)")
    case False
    with Cons.prems x have "sampling_pass su pl w = Inr w'" by simp
    with Cons.IH [of w] Cons.prems show ?thesis by simp
  next
    case True
    obtain station goodness where e: "stationGoodness w ! i = (station, goodness)"
      by (cases "stationGoodness w ! i")
    with True have mem: "(station, goodness) \<in> set (stationGoodness w)"
      by (metis nth_mem)
    from Cons.prems(3) x True e obtain w1
      where v: "visit_station su (station, goodness) io w = Inr w1"
        and r: "sampling_pass su pl w1 = Inr w'"
      by (cases "visit_station su (station, goodness) io w") auto
    from Cons.prems(2) x have ok: "nonneg_inferred io" by simp
    have "\<forall>k g. lookup (stationGoodness w1) k = Some g \<longrightarrow> fle c005 g"
      by (rule visit_station_floor [OF Cons.prems(1) mem ok v])
    from Cons.IH [OF this _ r] Cons.prems(2) show ?thesis by simp
  qed
qed

lemma refresh_floor:
  assumes inv: "\<forall>k g. lookup (stationGoodness w) k = Some g \<longrightarrow> fle c005 g"
    and run: "refresh su t w = Inr w'"
  shows "\<forall>k g. lookup (stationGoodness w') k = Some g \<longrightarrow> fle c005 g"
proof (cases "five_minutes < time_sub (now_check t) (lastStationsRefresh w)")
  case False
  with run inv show ?thesis by (simp add: refresh_skipped)
next
  case True
  from run True obtain stations where d: "discovered t = Inr stations"
    by (cases "discovered t") (auto simp: refresh_error)
  from run True d have "stationGoodness w' =
        stationGoodness (foldl ensureTracked
          (w\<lparr>trace := trace w @ [CallGetCeilingSignals (hostname su) (- 8)]\<rparr>) stations)"
    by (auto simp: refresh_def Let_def split: if_splits)
  then show ?thesis
    using inv fle_c005_c05
    by (auto simp: foldl_ensureTracked_lookup split: option.splits if_splits)
qed

lemma main_loop_floor:
  assumes "\<forall>k g. lookup (stationGoodness w) k = Some g \<longrightarrow> fle c005 g"
    and "\<forall>t \<in> set ticks. \<forall>(i, io) \<in> set (plan t). nonneg_inferred io"
    and "main_loop su ticks w = Inr w'"
  shows "\<forall>k g. lookup (stationGoodness w') k = Some g \<longrightarrow> fle c005 g"
  using assms
proof (induction ticks arbitrary: w)
  case Nil
  then show ?case by simp
next
  case (Cons t ticks)
  from Cons.prems(3) obtain w1 where r: "refresh su t w = Inr w1"
    by (cases "refresh su t w") (auto simp: loop_iteration_def)
  with Cons.prems(3) obtain w2 where p: "sampling_pass su (plan t) w1 = Inr w2"
    and m: "main_loop su ticks w2 = Inr w'"
    by (cases "sampling_pass su (plan t) w1") (auto simp: loop_iteration_def)
  have "\<forall>k g. lookup (stationGoodness w1) k = Some g \<longrightarrow> fle c005 g"
    by (rule refresh_floor [OF Cons.prems(1) r])
  then have "\<forall>k g. lookup (stationGoodness w2) k = Some g \<longrightarrow> fle c005 g"
    using Cons.prems(2) p by (intro sampling_pass_floor [of w1 "plan t" su w2]) simp_all
  from Cons.IH [OF this _ m] Cons.prems(2) show ?case by simp
qed

lemma first_tick_run: "main_loop demo_settings [first_tick] initial_world = Inr after_first_tick"
proof -
  have r: "refresh demo_settings first_tick initial_world = Inr after_first_refresh"
    by (simp add: after_first_refresh_def refresh_def first_tick_def initial_world_def demo_settings_def zero_time_def
        time_sub_def maxDuration_def minDuration_def five_minutes_def ensureTracked_def c05_eq)
  have u: "estimator_update [(Fin 101100000, Fin (1 / 2))] (Fin 101100000) (Fin (7549747 / 8388608))
             = [(Fin 101100000, Fin (10905191 / 16777216))]"
    by (simp add: estimator_update_def index_def feq_def example_score)
  have g: "fgt (Fin (7549747 / 8388608)) c05"
    by (simp add: fgt_def c05_eq)
  have v: "visit_station demo_settings (Fin 101100000, Fin (1 / 2)) speech_visit
             after_first_refresh = Inr after_first_tick"
    unfolding visit_station_sampled [OF speech_facts]
    by (simp add: u g after_first_tick_def after_first_refresh_def demo_settings_def speech_visit_def index_def feq_def)
  have p: "plan first_tick = [(0, speech_visit)]"
    by (simp add: first_tick_def)
  have e: "stationGoodness after_first_refresh \<noteq> []"
    "stationGoodness after_first_refresh ! 0 = (Fin 101100000, Fin (1 / 2))"
    by (simp_all add: after_first_refresh_def)
  show ?thesis
    unfolding main_loop.simps loop_iteration_def r
    by (simp add: p e v)
qed

text \<open>
  Claim C9. After any number of turns of the loop from the start of \<open>main\<close>, when no inferred
  value was negative, the score of every tracked station is at least float32(0.05), which is
  more than 0.05; so every draw below float32(0.05) samples it.
\<close>

theorem score_never_below_floor:
  assumes "main_loop su ticks initial_world = Inr w"
    and "\<forall>t \<in> set ticks. \<forall>(i, io) \<in> set (plan t). nonneg_inferred io"
    and "lookup (stationGoodness w) station = Some g"
  shows "fle c005 g \<and> fle (Fin (5 / 100)) g \<and> (\<forall>r. flt r c005 \<longrightarrow> flt r g)"
proof -
  have "\<forall>k g. lookup (stationGoodness initial_world) k = Some g \<longrightarrow> fle c005 g"
    by (simp add: initial_world_def)
  from main_loop_floor [OF this assms(2,1)] assms(3) have "fle c005 g"
    by blast
  then show ?thesis
    using c005_above [of g] flt_fle_trans [of _ c005 g] by simp
qed

theorem score_never_below_floor_witness:
  "main_loop demo_settings [first_tick] initial_world = Inr after_first_tick \<and>
   lookup (stationGoodness after_first_tick) (Fin 101100000) = Some (Fin (10905191 / 16777216)) \<and>
   fle c005 (Fin (10905191 / 16777216)) \<and> fle (Fin (5 / 100)) (Fin (10905191 / 16777216)) \<and>
   flt (Fin 0) (Fin (10905191 / 16777216))"
proof -
  have a: "\<forall>t \<in> set [first_tick]. \<forall>(i, io) \<in> set (plan t). nonneg_inferred io"
    by (simp add: first_tick_def nonneg_inferred_def speech_visit_def fle_def)
  have b: "lookup (stationGoodness after_first_tick) (Fin 101100000) = Some (Fin (10905191 / 16777216))"
    by (simp add: after_first_tick_def feq_def)
  have c: "flt (Fin 0) c005"
    by (simp add: c005_eq)
  show ?thesis
    using score_never_below_floor [OF first_tick_run a b] first_tick_run b c by blast
qed

end
